theory Spec2Isabelle
  imports Complex_Main "HOL-Library.AList"
begin

section \<open>Spaced-repetition scheduler\<close>

text \<open>
  A schedule state is a JavaScript object whose fields may be missing; a missing field
  is \<open>None\<close>.  The same object type serves both schedulers of the repository: the
  four-grade ease-factor scheduler writes \<open>ef, interval, reps, due\<close>, the three-grade
  scheduler of \<^verbatim>\<open>src/App.jsx\<close> writes \<open>interval, reps, attempts, successes, due\<close>.
  Times are integer milliseconds.  The ease factor is a double in the source and an exact
  real number here.
\<close>

record srs =
  ef :: "real option"
  interval :: "int option"
  reps :: "int option"
  attempts :: "int option"
  successes :: "int option"
  due :: "int option"

text \<open>The empty object \<^verbatim>\<open>{}\<close>.\<close>

definition empty_srs :: srs where
  "empty_srs = \<lparr>ef = None, interval = None, reps = None, attempts = None,
                 successes = None, due = None\<rparr>"

text \<open>A destructuring default \<^verbatim>\<open>{ f = d } = obj\<close>: the default is taken when the field is missing.\<close>

definition dflt :: "'a \<Rightarrow> 'a option \<Rightarrow> 'a" where
  "dflt d v = (case v of None \<Rightarrow> d | Some x \<Rightarrow> x)"

text \<open>\<^verbatim>\<open>card?.srs || {}\<close> and \<^verbatim>\<open>card || {}\<close>: a missing object is the empty object.\<close>

definition obj_or_empty :: "srs option \<Rightarrow> srs" where
  "obj_or_empty c = (case c of None \<Rightarrow> empty_srs | Some s \<Rightarrow> s)"

text \<open>
  \<^verbatim>\<open>sm2Schedule(card, quality, easyDelayHours, diffAgain)\<close> of \<^verbatim>\<open>src/App.jsx\<close>
  (quality 0 = Again, 1 = Hard, 2 = Easy; every other quality takes the last branch).
  \<open>now\<close> is the value of \<^verbatim>\<open>Date.now()\<close> read at the call.
\<close>

definition sm2Schedule_App :: "int \<Rightarrow> srs option \<Rightarrow> int \<Rightarrow> int \<Rightarrow> bool \<Rightarrow> srs" where
  "sm2Schedule_App now c quality easyDelayHours diffAgain =
    (let s = obj_or_empty c;
         interval0 = dflt 0 (interval s);
         reps0 = dflt 0 (reps s);
         attempts0 = dflt 0 (attempts s);
         successes0 = dflt 0 (successes s);
         due0 = dflt (now + 24 * 60 * 60 * 1000) (due s);
         attempts1 = attempts0 + 1;
         successes1 = (if quality > 0 then successes0 + 1 else successes0);
         reps1 = reps0 + 1;
         interval1 = (if quality = 2 then easyDelayHours * 60 * 60 * 1000
                      else if quality = 1 then 0
                      else (if diffAgain then 10 * 60 * 1000 else 0));
         due1 = (if quality = 2 then now + interval1
                 else if quality = 1 then now
                 else now + interval1)
     in \<lparr>ef = None, interval = Some interval1, reps = Some reps1,
         attempts = Some attempts1, successes = Some successes1, due = Some due1\<rparr>)"

text \<open>The four grades of the ease-factor scheduler and their numeric codes.\<close>

datatype grade = Again | Hard | Good | Easy

fun quality_of :: "grade \<Rightarrow> nat" where
  "quality_of Again = 0"
| "quality_of Hard = 1"
| "quality_of Good = 2"
| "quality_of Easy = 3"

definition qMap :: "real list" where
  "qMap = [2, 3, 4, 5]"

text \<open>\<^verbatim>\<open>Math.round\<close>: the nearest integer, halves rounded up.\<close>

definition Math_round :: "real \<Rightarrow> int" where
  "Math_round x = \<lfloor>x + 1 / 2\<rfloor>"

text \<open>
  \<^verbatim>\<open>sm2Schedule(card, quality)\<close> of the four-grade scheduler.  The returned object has no
  \<open>attempts\<close> and no \<open>successes\<close> field.
\<close>

definition sm2Schedule_SM2 :: "int \<Rightarrow> srs option \<Rightarrow> grade \<Rightarrow> srs" where
  "sm2Schedule_SM2 now c quality =
    (let s = obj_or_empty c;
         ef0 = dflt (5 / 2) (ef s);
         interval0 = dflt 0 (interval s);
         reps0 = dflt 0 (reps s)
     in if quality_of quality = 0
        then \<lparr>ef = Some (max (13 / 10) (ef0 - 2 / 10)), interval = Some (10 * 60 * 1000),
              reps = Some 0, attempts = None, successes = None,
              due = Some (now + 10 * 60 * 1000)\<rparr>
        else
          (let q = qMap ! quality_of quality;
               ef1 = ef0 + (1 / 10 - (5 - q) * (8 / 100 + (5 - q) * (2 / 100)));
               ef2 = max (13 / 10) (min (28 / 10) ef1);
               interval1 = (if reps0 = 0 then 24 * 60 * 60 * 1000
                            else if reps0 = 1 then 6 * 24 * 60 * 60 * 1000
                            else Math_round (of_int interval0 * ef2))
           in \<lparr>ef = Some ef2, interval = Some interval1, reps = Some (reps0 + 1),
                attempts = None, successes = None, due = Some (now + interval1)\<rparr>))"

text \<open>
  The counters as the application reads them (\<^verbatim>\<open>c.srs.attempts || 0\<close>,
  \<^verbatim>\<open>srs[c.id]?.reps || 0\<close>): a missing object or field counts as 0.
\<close>

definition attemptCount :: "srs option \<Rightarrow> int" where
  "attemptCount c = dflt 0 (attempts (obj_or_empty c))"

definition successCount :: "srs option \<Rightarrow> int" where
  "successCount c = dflt 0 (successes (obj_or_empty c))"

definition repetitionCount :: "srs option \<Rightarrow> int" where
  "repetitionCount c = dflt 0 (reps (obj_or_empty c))"

text \<open>
  A review event of the three-grade scheduler: the time of the call, the quality, and the
  two settings read at the call.  \<open>grade_all\<close> applies a sequence of reviews to one card,
  each result being stored and passed to the next call, as \<^verbatim>\<open>grade\<close> does.
\<close>

type_synonym review = "int \<times> int \<times> int \<times> bool"

fun grade_App :: "srs option \<Rightarrow> review \<Rightarrow> srs option" where
  "grade_App c (now, quality, easyDelayHours, diffAgain) =
     Some (sm2Schedule_App now c quality easyDelayHours diffAgain)"

fun grade_all :: "srs option \<Rightarrow> review list \<Rightarrow> srs option" where
  "grade_all c [] = c"
| "grade_all c (r # rs) = grade_all (grade_App c r) rs"

text \<open>The number of reviews of a sequence whose quality is above 0 (not Again).\<close>

definition passes :: "review list \<Rightarrow> int" where
  "passes rs = int (length (filter (\<lambda>r. fst (snd r) > 0) rs))"

text \<open>The same for the four-grade scheduler.\<close>

fun grade_SM2 :: "srs option \<Rightarrow> int \<times> grade \<Rightarrow> srs option" where
  "grade_SM2 c (now, quality) = Some (sm2Schedule_SM2 now c quality)"

section \<open>Strings\<close>

text \<open>
  Strings are byte sequences (UTF-8).  \<open>String_nat\<close> and \<open>String_int\<close> are the decimal
  text JavaScript gives an integer in a template literal or under \<^verbatim>\<open>String(n)\<close>.
\<close>

function String_nat :: "nat \<Rightarrow> string" where
  "String_nat n = (if n < 10 then [''0123456789'' ! n]
                   else String_nat (n div 10) @ [''0123456789'' ! (n mod 10)])"
  by pat_completeness auto
termination
  by (relation "measure id") auto

declare String_nat.simps [simp del]

definition String_int :: "int \<Rightarrow> string" where
  "String_int i = (if i < 0 then CHR ''-'' # String_nat (nat (- i)) else String_nat (nat i))"

text \<open>The em dash of the error text, as its three UTF-8 bytes.\<close>

definition em_dash :: string where
  "em_dash = [CHR 0xE2, CHR 0x80, CHR 0x94]"

section \<open>HTTP client: \<^verbatim>\<open>fetchJSON\<close>\<close>

text \<open>
  \<^verbatim>\<open>fetchJSON\<close> is the same in both source files (the constants 6 and 120 are written
  out in \<^verbatim>\<open>src/App.jsx\<close>).
\<close>

definition MAX_RETRIES :: nat where "MAX_RETRIES = 6"
definition JITTER_MS :: nat where "JITTER_MS = 120"

text \<open>A thrown \<^verbatim>\<open>Error\<close>, with its message.\<close>

datatype error = Error string

text \<open>
  The \<^verbatim>\<open>Retry-After\<close> header of a response: missing, a number of seconds, or an HTTP
  date (the two forms HTTP allows).
\<close>

datatype retry_after = NoHeader | DeltaSeconds nat | HttpDate string

text \<open>
  What the client reads of a response.  \<open>text_body\<close> is the result of \<^verbatim>\<open>r.text()\<close>,
  \<open>None\<close> when that promise rejects; \<open>json_body\<close> is the result of \<^verbatim>\<open>r.json()\<close>,
  a parsed body of type \<open>'j\<close> or the error it rejects with.
\<close>

record 'j response =
  status :: nat
  statusText :: string
  retryAfterHeader :: retry_after
  text_body :: "string option"
  json_body :: "error + 'j"

text \<open>\<^verbatim>\<open>r.ok\<close>: the status is in the range 200 to 299.\<close>

definition ok :: "'j response \<Rightarrow> bool" where
  "ok r = (200 \<le> status r \<and> status r \<le> 299)"

text \<open>
  \<^verbatim>\<open>Number(r.headers.get("Retry-After"))\<close>: a missing header is \<^verbatim>\<open>null\<close>, which
  converts to 0; a date converts to \<^verbatim>\<open>NaN\<close>, here \<open>None\<close>.
\<close>

fun Number_header :: "retry_after \<Rightarrow> nat option" where
  "Number_header NoHeader = Some 0"
| "Number_header (DeltaSeconds n) = Some n"
| "Number_header (HttpDate d) = None"

text \<open>The truth value of a number in a condition: 0 and \<^verbatim>\<open>NaN\<close> are false.\<close>

definition truthy_num :: "nat option \<Rightarrow> bool" where
  "truthy_num v = (case v of None \<Rightarrow> False | Some n \<Rightarrow> n \<noteq> 0)"

text \<open>
  The error thrown for a failed response:
  \<^verbatim>\<open>`${status} ${r.statusText}${text ? ` - ${text}` : ""}`\<close> (with an em dash), where
  \<^verbatim>\<open>text\<close> is the body text, or the empty string when reading it fails.
\<close>

definition http_error :: "'j response \<Rightarrow> error" where
  "http_error r =
     (let text = (case text_body r of None \<Rightarrow> '''' | Some t \<Rightarrow> t)
      in Error (String_nat (status r) @ '' '' @ statusText r
                @ (if text \<noteq> '''' then '' '' @ em_dash @ '' '' @ text else '''')))"

text \<open>
  The wait before a retry.  \<open>u\<close> is the value of \<^verbatim>\<open>Math.random()\<close>.
\<close>

definition backoff :: "'j response \<Rightarrow> nat \<Rightarrow> real \<Rightarrow> nat" where
  "backoff r attempt u =
     (let retryAfter = Number_header (retryAfterHeader r)
      in if truthy_num retryAfter
         then max 1000 (dflt 0 retryAfter * 1000)
         else min (1000 * 2 ^ attempt) 16000 + nat \<lfloor>u * real JITTER_MS\<rfloor>)"

text \<open>What the client does that the outside can see: a request, or a sleep of so many ms.\<close>

datatype event = Fetch string | Sleep nat

definition retryable :: "'j response \<Rightarrow> bool" where
  "retryable r = (status r = 429 \<or> (500 \<le> status r \<and> status r < 600))"

text \<open>
  The loop of \<^verbatim>\<open>fetchJSON\<close>, from a given value of \<^verbatim>\<open>attempt\<close>.  \<open>resp i\<close> is the
  response to the request made when \<^verbatim>\<open>attempt = i\<close>, \<open>rnd i\<close> the random number drawn
  in that iteration.  The result is the returned body or the thrown error, with the
  sequence of requests and sleeps.
\<close>

function fetchJSON_from :: "(nat \<Rightarrow> 'j response) \<Rightarrow> (nat \<Rightarrow> real) \<Rightarrow> string \<Rightarrow> nat
    \<Rightarrow> (error + 'j) \<times> event list" where
  "fetchJSON_from resp rnd url attempt =
     (let r = resp attempt
      in if ok r then (json_body r, [Fetch url])
         else if retryable r then
           (if attempt \<ge> MAX_RETRIES then (Inl (http_error r), [Fetch url])
            else (case fetchJSON_from resp rnd url (attempt + 1) of
                    (res, tr) \<Rightarrow> (res, Fetch url # Sleep (backoff r attempt (rnd attempt)) # tr)))
         else (Inl (http_error r), [Fetch url]))"
  by pat_completeness auto
termination
  by (relation "measure (\<lambda>(resp, rnd, url, attempt). MAX_RETRIES - attempt)") auto

declare fetchJSON_from.simps [simp del]

definition fetchJSON :: "(nat \<Rightarrow> 'j response) \<Rightarrow> (nat \<Rightarrow> real) \<Rightarrow> string
    \<Rightarrow> (error + 'j) \<times> event list" where
  "fetchJSON resp rnd url = fetchJSON_from resp rnd url 0"

text \<open>
  The closed form of the loop: the iterations with a retried response, cut at
  \<open>MAX_RETRIES\<close>, each a request followed by its wait, then one last request whose response
  decides the result.
\<close>

definition transient :: "'j response \<Rightarrow> bool" where
  "transient r = (\<not> ok r \<and> retryable r)"

definition stop_from :: "(nat \<Rightarrow> 'j response) \<Rightarrow> nat \<Rightarrow> nat" where
  "stop_from resp a = a + length (takeWhile (\<lambda>i. transient (resp i)) [a..<MAX_RETRIES])"

definition stop_index :: "(nat \<Rightarrow> 'j response) \<Rightarrow> nat" where
  "stop_index resp = stop_from resp 0"

definition final_result :: "'j response \<Rightarrow> error + 'j" where
  "final_result r = (if ok r then json_body r else Inl (http_error r))"

definition retry_trace :: "(nat \<Rightarrow> 'j response) \<Rightarrow> (nat \<Rightarrow> real) \<Rightarrow> string \<Rightarrow> nat \<Rightarrow> nat
    \<Rightarrow> event list" where
  "retry_trace resp rnd url a k =
     concat (map (\<lambda>i. [Fetch url, Sleep (backoff (resp i) i (rnd i))]) [a..<k]) @ [Fetch url]"

text \<open>
  A trace is well paced when it is requests separated by sleeps of at least one second,
  starting and ending with a request.
\<close>

fun well_paced :: "event list \<Rightarrow> bool" where
  "well_paced [Fetch u] = True"
| "well_paced (Fetch u # Sleep n # tr) = (1000 \<le> n \<and> well_paced tr)"
| "well_paced tr = False"

fun is_Fetch :: "event \<Rightarrow> bool" where
  "is_Fetch (Fetch u) = True"
| "is_Fetch (Sleep n) = False"

definition requests :: "event list \<Rightarrow> nat" where
  "requests tr = length (filter is_Fetch tr)"

text \<open>Example servers: one that fails twice and then answers, one that is always busy.\<close>

definition resp_demo :: "nat \<Rightarrow> nat response" where
  "resp_demo i =
     (if i = 0 then \<lparr>status = 503, statusText = ''Service Unavailable'',
                     retryAfterHeader = DeltaSeconds 2, text_body = Some ''busy'',
                     json_body = Inl (Error ''not JSON'')\<rparr>
      else if i = 1 then \<lparr>status = 429, statusText = ''Too Many Requests'',
                     retryAfterHeader = NoHeader, text_body = None,
                     json_body = Inl (Error ''not JSON'')\<rparr>
      else \<lparr>status = 200, statusText = ''OK'', retryAfterHeader = NoHeader,
             text_body = Some ''7'', json_body = Inr 7\<rparr>)"

definition resp_busy :: "nat \<Rightarrow> nat response" where
  "resp_busy i = \<lparr>status = 503, statusText = ''Service Unavailable'',
                  retryAfterHeader = NoHeader, text_body = Some ''busy'',
                  json_body = Inl (Error ''not JSON'')\<rparr>"

definition resp_zero :: "nat \<Rightarrow> nat response" where
  "resp_zero i =
     (if i < 2 then \<lparr>status = 503, statusText = ''Service Unavailable'',
                     retryAfterHeader = DeltaSeconds 0, text_body = Some ''busy'',
                     json_body = Inl (Error ''not JSON'')\<rparr>
      else \<lparr>status = 200, statusText = ''OK'', retryAfterHeader = NoHeader,
             text_body = Some ''7'', json_body = Inr 7\<rparr>)"

section \<open>Theme resolver: \<^verbatim>\<open>getOpeningsForAniListId\<close>\<close>

text \<open>
  The body the theme index answers with, as far as the resolver reads it.  A field that
  may be missing or \<^verbatim>\<open>null\<close> is an option.
\<close>

record video_json =
  link :: "string option"
  audio :: "string option"

record entry_json =
  videos :: "video_json list option"

record theme_json =
  theme_type :: "string option"
  sequence :: "int option"
  song_title :: "string option"
  animethemeentries :: "entry_json list option"

record anime_json =
  animethemes :: "theme_json list option"

record themes_data =
  anime :: "anime_json list option"

text \<open>An opening as the resolver returns and caches it.\<close>

record theme_record =
  op_type :: string
  number :: "int option"
  songTitle :: string
  artists :: string
  videoUrl :: string

text \<open>\<^verbatim>\<open>toUpperCase\<close>, on the letters a to z.\<close>

definition upper_char :: "char \<Rightarrow> char" where
  "upper_char c =
     (case map_of (zip ''abcdefghijklmnopqrstuvwxyz'' ''ABCDEFGHIJKLMNOPQRSTUVWXYZ'') c of
        None \<Rightarrow> c | Some C \<Rightarrow> C)"

definition toUpperCase :: "string \<Rightarrow> string" where
  "toUpperCase s = map upper_char s"

text \<open>\<^verbatim>\<open>a || b\<close> on strings that may be missing: the first that is present and not empty.\<close>

definition or_else :: "string option \<Rightarrow> string \<Rightarrow> string" where
  "or_else a b = (case a of None \<Rightarrow> b | Some s \<Rightarrow> if s \<noteq> '''' then s else b)"

text \<open>
  The inner loop over \<^verbatim>\<open>t?.animethemeentries || []\<close>: the first entry whose first
  video has a link or an audio link decides \<^verbatim>\<open>videoUrl\<close>.
\<close>

fun scan_entries :: "string \<Rightarrow> entry_json list \<Rightarrow> string" where
  "scan_entries vurl [] = vurl"
| "scan_entries vurl (e # es) =
     (case dflt [] (videos e) of
        [] \<Rightarrow> scan_entries vurl es
      | v # _ \<Rightarrow>
          (let vurl' = or_else (link v) (or_else (audio v) '''')
           in if vurl' \<noteq> '''' then vurl' else scan_entries vurl' es))"

definition is_OP :: "theme_json \<Rightarrow> bool" where
  "is_OP t = (toUpperCase (dflt '''' (theme_type t)) = ''OP'')"

definition opening_of_theme :: "theme_json \<Rightarrow> theme_record" where
  "opening_of_theme t =
     \<lparr>op_type = ''OP'', number = sequence t, songTitle = dflt '''' (song_title t),
      artists = '''', videoUrl = scan_entries '''' (dflt [] (animethemeentries t))\<rparr>"

text \<open>
  What \<^verbatim>\<open>fetchByUrl\<close> makes of a parsed body: the openings of \<^verbatim>\<open>animeArr[0]\<close>.
\<close>

definition openings_of_data :: "themes_data \<Rightarrow> theme_record list" where
  "openings_of_data data =
     (case dflt [] (anime data) of
        [] \<Rightarrow> []
      | a # _ \<Rightarrow> map opening_of_theme (filter is_OP (dflt [] (animethemes a))))"

text \<open>
  The network as the resolver meets it: for each URL the responses the server gives to
  the successive requests of one \<^verbatim>\<open>fetchJSON\<close> call, and the random numbers drawn.
\<close>

record net =
  server :: "string \<Rightarrow> nat \<Rightarrow> themes_data response"
  random :: "nat \<Rightarrow> real"

text \<open>One call of \<^verbatim>\<open>fetchJSON\<close>: its URL and its trace.\<close>

type_synonym call = "string \<times> event list"

definition fetchByUrl :: "net \<Rightarrow> string \<Rightarrow> (error + theme_record list) \<times> event list" where
  "fetchByUrl n url =
     (case fetchJSON (server n url) (random n) url of
        (Inl e, tr) \<Rightarrow> (Inl e, tr)
      | (Inr data, tr) \<Rightarrow> (Inr (openings_of_data data), tr))"

text \<open>\<^verbatim>\<open>encodeURIComponent\<close> on the bytes of a string.\<close>

definition hex_digit :: "nat \<Rightarrow> char" where
  "hex_digit n = ''0123456789ABCDEF'' ! (n mod 16)"

definition unreserved :: "char \<Rightarrow> bool" where
  "unreserved c =
     (c \<in> set ''ABCDEFGHIJKLMNOPQRSTUVWXYZabcdefghijklmnopqrstuvwxyz0123456789-_.!~*'()'')"

definition encode_char :: "char \<Rightarrow> string" where
  "encode_char c =
     (if unreserved c then [c]
      else [CHR ''%'', hex_digit (of_char c div 16), hex_digit (of_char c)])"

definition encodeURIComponent :: "string \<Rightarrow> string" where
  "encodeURIComponent s = concat (map encode_char s)"

definition theme_url :: "string \<Rightarrow> string" where
  "theme_url title =
     ''https://api.animethemes.moe/anime?filter[name]='' @ encodeURIComponent title
     @ ''&include=animethemes,animethemes.song,animethemes.animethemeentries,animethemes.animethemeentries.videos''"

text \<open>The cache: an object from \<^verbatim>\<open>String(anilistId)\<close> to a list of openings.\<close>

type_synonym cache = "string \<rightharpoonup> theme_record list"

record titles =
  titleRomaji :: string
  titleEnglish :: string
  titleNative :: string

text \<open>
  One of the two later steps, \<^verbatim>\<open>if (results.length === 0 && title) results = await fetchByUrl(...)\<close>.
  The state is the result so far, or the error thrown, and the calls made.
\<close>

fun variant_step :: "net \<Rightarrow> string \<Rightarrow> (error + theme_record list) \<times> call list
    \<Rightarrow> (error + theme_record list) \<times> call list" where
  "variant_step n title (Inl e, calls) = (Inl e, calls)"
| "variant_step n title (Inr results, calls) =
     (if results = [] \<and> title \<noteq> ''''
      then (case fetchByUrl n (theme_url title) of
              (r, tr) \<Rightarrow> (r, calls @ [(theme_url title, tr)]))
      else (Inr results, calls))"

text \<open>
  \<^verbatim>\<open>getOpeningsForAniListId(anilistId, titles)\<close>, with the value of \<^verbatim>\<open>cache\<close> that
  the function closes over.  It yields the list returned or the error thrown, the argument
  of \<^verbatim>\<open>setCache\<close> when that is called, and the calls made.  A cached value is an array,
  which is true in a condition also when it is empty.
\<close>

definition getOpeningsForAniListId :: "cache \<Rightarrow> net \<Rightarrow> int \<Rightarrow> titles
    \<Rightarrow> (error + theme_record list) \<times> cache option \<times> call list" where
  "getOpeningsForAniListId cache n anilistId ts =
     (case cache (String_int anilistId) of
        Some cached \<Rightarrow> (Inr cached, None, [])
      | None \<Rightarrow>
          (let s0 = (Inr [], []);
               s1 = (if titleRomaji ts \<noteq> ''''
                     then (case fetchByUrl n (theme_url (titleRomaji ts)) of
                             (r, tr) \<Rightarrow> (r, [(theme_url (titleRomaji ts), tr)]))
                     else s0);
               s2 = variant_step n (titleEnglish ts) s1;
               s3 = variant_step n (titleNative ts) s2
           in case s3 of
                (Inl e, calls) \<Rightarrow> (Inl e, None, calls)
              | (Inr results, calls) \<Rightarrow>
                  (Inr results, Some (cache(String_int anilistId \<mapsto> results)), calls)))"

text \<open>
  The resolver in the words of the specification: try the non-empty title variants in the
  order romaji, english, native, one query each, and stop at the first non-empty result;
  then write the result into the cache.
\<close>

fun try_variants :: "net \<Rightarrow> string list \<Rightarrow> (error + theme_record list) \<times> call list" where
  "try_variants n [] = (Inr [], [])"
| "try_variants n (t # ts) =
     (case fetchByUrl n (theme_url t) of
        (Inl e, tr) \<Rightarrow> (Inl e, [(theme_url t, tr)])
      | (Inr r, tr) \<Rightarrow>
          if r \<noteq> [] then (Inr r, [(theme_url t, tr)])
          else (case try_variants n ts of (res, calls) \<Rightarrow> (res, (theme_url t, tr) # calls)))"

definition variants :: "titles \<Rightarrow> string list" where
  "variants ts = filter (\<lambda>t. t \<noteq> '''') [titleRomaji ts, titleEnglish ts, titleNative ts]"

definition resolve_spec :: "cache \<Rightarrow> net \<Rightarrow> int \<Rightarrow> titles
    \<Rightarrow> (error + theme_record list) \<times> cache option \<times> call list" where
  "resolve_spec cache n anilistId ts =
     (case cache (String_int anilistId) of
        Some cached \<Rightarrow> (Inr cached, None, [])
      | None \<Rightarrow>
          (case try_variants n (variants ts) of
             (Inl e, calls) \<Rightarrow> (Inl e, None, calls)
           | (Inr results, calls) \<Rightarrow>
               (Inr results, Some (cache(String_int anilistId \<mapsto> results)), calls)))"

text \<open>The number of HTTP requests of a list of calls.\<close>

definition requests_of :: "call list \<Rightarrow> nat" where
  "requests_of calls = sum_list (map (\<lambda>c. requests (snd c)) calls)"

text \<open>
  An example: a theme index that knows the show only under its english title, and answers
  that query with two matched records, the first holding one opening and one ending.
\<close>

definition op1_theme :: theme_json where
  "op1_theme = \<lparr>theme_type = Some ''op'', sequence = Some 1, song_title = Some ''Guren no Yumiya'',
     animethemeentries = Some [\<lparr>videos = Some []\<rparr>,
        \<lparr>videos = Some [\<lparr>link = None, audio = Some ''https://a.example/op1.ogg''\<rparr>]\<rparr>]\<rparr>"

definition ed1_theme :: theme_json where
  "ed1_theme = \<lparr>theme_type = Some ''ED'', sequence = Some 1, song_title = Some ''Utsukushiki'',
     animethemeentries = None\<rparr>"

definition op2_theme :: theme_json where
  "op2_theme = \<lparr>theme_type = Some ''OP'', sequence = Some 2, song_title = Some ''Jiyuu'',
     animethemeentries = None\<rparr>"

definition ok_response :: "themes_data \<Rightarrow> themes_data response" where
  "ok_response d = \<lparr>status = 200, statusText = ''OK'', retryAfterHeader = NoHeader,
                    text_body = None, json_body = Inr d\<rparr>"

definition demo_net :: net where
  "demo_net =
     \<lparr>server = (\<lambda>url i.
         if url = theme_url ''Attack on Titan''
         then ok_response \<lparr>anime = Some [\<lparr>animethemes = Some [op1_theme, ed1_theme]\<rparr>,
                                          \<lparr>animethemes = Some [op2_theme]\<rparr>]\<rparr>
         else ok_response \<lparr>anime = Some []\<rparr>),
      random = (\<lambda>_. 0)\<rparr>"

definition demo_titles :: titles where
  "demo_titles = \<lparr>titleRomaji = ''Shingeki no Kyojin'', titleEnglish = ''Attack on Titan'',
                  titleNative = ''''\<rparr>"

definition demo_op1 :: theme_record where
  "demo_op1 = \<lparr>op_type = ''OP'', number = Some 1, songTitle = ''Guren no Yumiya'',
               artists = '''', videoUrl = ''https://a.example/op1.ogg''\<rparr>"

text \<open>
  A second index: it answers the romaji query with two matched records, of which only the
  second has an opening.
\<close>

definition two_records :: themes_data where
  "two_records = \<lparr>anime = Some [\<lparr>animethemes = Some [ed1_theme]\<rparr>,
                                  \<lparr>animethemes = Some [op2_theme]\<rparr>]\<rparr>"

definition demo_net2 :: net where
  "demo_net2 =
     \<lparr>server = (\<lambda>url i.
         if url = theme_url ''Attack on Titan''
         then ok_response \<lparr>anime = Some [\<lparr>animethemes = Some [op1_theme, ed1_theme]\<rparr>]\<rparr>
         else ok_response two_records),
      random = (\<lambda>_. 0)\<rparr>"

section \<open>Cards and \<^verbatim>\<open>dedupeById\<close>\<close>

text \<open>
  Everything that has an \<^verbatim>\<open>id\<close> field.  The cards of the two importers extend it.
\<close>

record identified =
  card_id :: string

text \<open>
  \<^verbatim>\<open>dedupeById(arr)\<close>: a \<^verbatim>\<open>Map\<close> from id to card, filled in the order of the array and
  read back in insertion order.  Setting a key that is present keeps its position and
  replaces its value, which is what \<open>AList.update\<close> does on a list of entries.
\<close>

definition dedupeById :: "'a identified_scheme list \<Rightarrow> 'a identified_scheme list" where
  "dedupeById arr = map snd (foldl (\<lambda>m c. AList.update (card_id c) c m) [] arr)"

text \<open>A list of entries of such a map is keyed when every card sits under its own id.\<close>

definition keyed :: "(string \<times> 'a identified_scheme) list \<Rightarrow> bool" where
  "keyed al = (\<forall>p \<in> set al. card_id (snd p) = fst p)"

section \<open>Import from the theme index: \<^verbatim>\<open>buildDeckFromAniList\<close>\<close>

text \<open>A catalog entry as \<^verbatim>\<open>getAniListAnime\<close> returns it: the titles, and what follows.\<close>

record catalog_entry = titles +
  anilistId :: int
  season :: string
  year :: "int option"

record flashcard = identified +
  card_anilistId :: int
  card_titleRomaji :: string
  card_titleEnglish :: string
  card_titleNative :: string
  card_season :: string
  card_year :: "int option"
  opNumber :: "int option"
  card_songTitle :: string
  card_artists :: string
  card_videoUrl :: string

record progress_state =
  totalShows :: nat
  processedShows :: nat
  totalOps :: nat

text \<open>
  The state the run reads and writes: the React states \<^verbatim>\<open>cards\<close>, \<^verbatim>\<open>progress\<close>,
  \<^verbatim>\<open>error\<close>, \<^verbatim>\<open>loading\<close>, \<^verbatim>\<open>showAnswer\<close> and \<^verbatim>\<open>cache\<close>, and the set held by
  \<^verbatim>\<open>idsRef\<close>.
\<close>

record app_state =
  cards :: "flashcard list"
  idsRef :: "string set"
  progress :: progress_state
  error_text :: string
  loading :: bool
  showAnswer :: bool
  cache_state :: cache

text \<open>
  What is outside the run: the network of the theme index; the outcome of the call
  \<^verbatim>\<open>getAniListUserId(name)\<close>, a user id or the error thrown (a failed request, or "user
  not found"); the outcome of \<^verbatim>\<open>getAniListAnime(uid)\<close>, the entries or the error thrown;
  and the value of \<^verbatim>\<open>cancelImportRef.current\<close> when the loop reaches its \<open>i\<close>-th entry.
\<close>

record world = net +
  userId_result :: "string \<Rightarrow> error + int"
  anime_result :: "int \<Rightarrow> error + catalog_entry list"
  cancelled :: "nat \<Rightarrow> bool"

text \<open>\<^verbatim>\<open>name.trim()\<close>, on the ASCII white space.\<close>

definition is_space :: "char \<Rightarrow> bool" where
  "is_space c = (c \<in> set [CHR 0x20, CHR 0x09, CHR 0x0A, CHR 0x0B, CHR 0x0C, CHR 0x0D])"

definition trim :: "string \<Rightarrow> string" where
  "trim s = rev (dropWhile is_space (rev (dropWhile is_space s)))"

text \<open>The two messages of the run, with their accented letters as UTF-8 bytes.\<close>

definition e_acute :: string where
  "e_acute = [CHR 0xC3, CHR 0xA9]"

definition no_anime_msg :: string where
  "no_anime_msg = ''Aucun anime trouv'' @ e_acute @ '' pour cet utilisateur (profil vide ou priv''
     @ e_acute @ '')''"

definition no_op_msg :: string where
  "no_op_msg = ''Aucun OP trouv'' @ e_acute @ '' via AnimeThemes pour tes s'' @ e_acute
     @ ''ries (le mapping AniList '' @ [CHR 0xE2, CHR 0x86, CHR 0x92]
     @ '' AnimeThemes a peut-'' @ [CHR 0xC3, CHR 0xAA] @ ''tre '' @ e_acute @ ''chou'' @ e_acute
     @ '' pour ce compte).''"

text \<open>\<^verbatim>\<open>e?.message || String(e)\<close>: the message, or \<^verbatim>\<open>"Error"\<close> when it is empty.\<close>

fun error_message :: "error \<Rightarrow> string" where
  "error_message (Error msg) = (if msg \<noteq> [] then msg else ''Error'')"

text \<open>\<^verbatim>\<open>op.number || 1\<close>: a missing number and the number 0 become 1.\<close>

definition number_or_1 :: "int option \<Rightarrow> int" where
  "number_or_1 v = (case v of None \<Rightarrow> 1 | Some k \<Rightarrow> if k \<noteq> 0 then k else 1)"

text \<open>The card id \<^verbatim>\<open>`${m.anilistId}::OP${op.number || 1}`\<close>.\<close>

definition entry_card_id :: "int \<Rightarrow> int option \<Rightarrow> string" where
  "entry_card_id aid num = String_int aid @ ''::OP'' @ String_int (number_or_1 num)"

definition new_card :: "catalog_entry \<Rightarrow> theme_record \<Rightarrow> flashcard" where
  "new_card m op =
     \<lparr>card_id = entry_card_id (anilistId m) (number op),
      card_anilistId = anilistId m,
      card_titleRomaji = titleRomaji m,
      card_titleEnglish = titleEnglish m,
      card_titleNative = titleNative m,
      card_season = season m,
      card_year = year m,
      opNumber = number op,
      card_songTitle = songTitle op,
      card_artists = artists op,
      card_videoUrl = videoUrl op\<rparr>"

text \<open>
  The loop over the openings of one entry.  Its state is the set of \<^verbatim>\<open>idsRef\<close>, the
  list \<^verbatim>\<open>newCards\<close> and the counter \<^verbatim>\<open>added\<close>.
\<close>

fun stage_ops :: "catalog_entry \<Rightarrow> theme_record list \<Rightarrow> string set \<times> flashcard list \<times> nat
    \<Rightarrow> string set \<times> flashcard list \<times> nat" where
  "stage_ops m [] s = s"
| "stage_ops m (op # ops) (ids, newCards, added) =
     (if entry_card_id (anilistId m) (number op) \<notin> ids
      then stage_ops m ops
             (insert (entry_card_id (anilistId m) (number op)) ids, newCards @ [new_card m op],
              added + 1)
      else stage_ops m ops (ids, newCards, added))"

definition titles_of :: "catalog_entry \<Rightarrow> titles" where
  "titles_of m = \<lparr>titleRomaji = titleRomaji m, titleEnglish = titleEnglish m,
                  titleNative = titleNative m\<rparr>"

definition net_of :: "world \<Rightarrow> net" where
  "net_of w = \<lparr>server = server w, random = random w\<rparr>"

text \<open>The resolver as the run calls it for an entry.\<close>

definition resolve_entry :: "cache \<Rightarrow> world \<Rightarrow> catalog_entry
    \<Rightarrow> (error + theme_record list) \<times> cache option \<times> call list" where
  "resolve_entry cache w m = getOpeningsForAniListId cache (net_of w) (anilistId m) (titles_of m)"

definition bump_processed :: "nat \<Rightarrow> progress_state \<Rightarrow> progress_state" where
  "bump_processed added p =
     p\<lparr>processedShows := processedShows p + 1, totalOps := totalOps p + added\<rparr>"

text \<open>
  The body of the loop for one entry, after the test of the cancel flag: the inner
  \<^verbatim>\<open>try\<close> with its \<^verbatim>\<open>catch\<close>.  \<open>cache\<close> is the value of the cache the run closes
  over; it does not change during the run.  The sleep after the entry changes nothing.
\<close>

definition process_entry :: "cache \<Rightarrow> world \<Rightarrow> app_state \<Rightarrow> catalog_entry \<Rightarrow> app_state" where
  "process_entry cache w st m =
     (case resolve_entry cache w m of
        (res, set_cache, calls) \<Rightarrow>
          (let st1 = (case set_cache of None \<Rightarrow> st | Some c \<Rightarrow> st\<lparr>cache_state := c\<rparr>)
           in case res of
                Inl e \<Rightarrow>
                  st1\<lparr>progress := (progress st1)\<lparr>processedShows :=
                                      processedShows (progress st1) + 1\<rparr>\<rparr>
              | Inr ops \<Rightarrow>
                  (case stage_ops m ops (idsRef st1, [], 0) of
                     (ids, newCards, added) \<Rightarrow>
                       (let st2 = st1\<lparr>idsRef := ids\<rparr>;
                            st3 = (if newCards \<noteq> []
                                   then st2\<lparr>cards := dedupeById (cards st2 @ newCards)\<rparr>
                                   else st2)
                        in st3\<lparr>progress := bump_processed added (progress st3)\<rparr>))))"

text \<open>\<^verbatim>\<open>for (const m of list)\<close>, from the \<open>i\<close>-th entry on.\<close>

fun import_loop :: "cache \<Rightarrow> world \<Rightarrow> nat \<Rightarrow> catalog_entry list \<Rightarrow> app_state \<Rightarrow> app_state" where
  "import_loop cache w i [] st = st"
| "import_loop cache w i (m # ms) st =
     (if cancelled w i then st
      else import_loop cache w (Suc i) ms (process_entry cache w st m))"

text \<open>
  The outer \<^verbatim>\<open>try\<close> block: the state it ends in, or the error that reaches the outer
  \<^verbatim>\<open>catch\<close>.
\<close>

definition try_body :: "world \<Rightarrow> int \<Rightarrow> cache \<Rightarrow> string \<Rightarrow> app_state \<Rightarrow> error + app_state" where
  "try_body w maxShows cache name st =
     (case userId_result w (trim name) of
        Inl e \<Rightarrow> Inl e
      | Inr uid \<Rightarrow>
          (case anime_result w uid of
             Inl e \<Rightarrow> Inl e
           | Inr all_anime \<Rightarrow>
               (let list = take (nat (max 10 maxShows)) all_anime
                in if list = [] then Inl (Error no_anime_msg)
                   else
                     (let st1 = st\<lparr>progress := \<lparr>totalShows = length list,
                                                  processedShows = 0, totalOps = 0\<rparr>\<rparr>;
                          st2 = import_loop cache w 0 list st1;
                          deduped = dedupeById (cards st2)
                      in Inr (st2\<lparr>cards := deduped,
                                  error_text := (if deduped = [] then no_op_msg
                                                 else error_text st2)\<rparr>)))))"

text \<open>
  \<^verbatim>\<open>buildDeckFromAniList(name)\<close>.  The run closes over the states \<^verbatim>\<open>cards\<close>,
  \<^verbatim>\<open>cache\<close> and \<^verbatim>\<open>maxShows\<close> as they are when it starts.
\<close>

definition buildDeckFromAniList :: "world \<Rightarrow> int \<Rightarrow> app_state \<Rightarrow> string \<Rightarrow> app_state" where
  "buildDeckFromAniList w maxShows st name =
     (let st0 = st\<lparr>error_text := [], loading := True, showAnswer := False,
                   idsRef := set (map card_id (cards st))\<rparr>;
          st1 = (case try_body w maxShows (cache_state st) name st0 of
                   Inl e \<Rightarrow> st0\<lparr>error_text := error_message e, cards := []\<rparr>
                 | Inr s \<Rightarrow> s)
      in st1\<lparr>loading := False\<rparr>)"

text \<open>The card ids the run computes for the openings of an entry.\<close>

definition op_ids :: "catalog_entry \<Rightarrow> theme_record list \<Rightarrow> string set" where
  "op_ids m ops = (\<lambda>op. entry_card_id (anilistId m) (number op)) ` set ops"

text \<open>The set of \<^verbatim>\<open>idsRef\<close> holds exactly the ids of the cards.\<close>

definition ids_synced :: "app_state \<Rightarrow> bool" where
  "ids_synced st = (idsRef st = card_id ` set (cards st))"

text \<open>The key of an entry in the cache.\<close>

definition entry_key :: "catalog_entry \<Rightarrow> string" where
  "entry_key m = String_int (anilistId m)"

text \<open>The state after the first statements of \<^verbatim>\<open>buildDeckFromAniList\<close>, before the \<^verbatim>\<open>try\<close>.\<close>

definition start_state :: "app_state \<Rightarrow> app_state" where
  "start_state st = st\<lparr>error_text := [], loading := True, showAnswer := False,
                        idsRef := set (map card_id (cards st))\<rparr>"

text \<open>The state when the loop starts, after \<^verbatim>\<open>setProgress\<close>.\<close>

definition list_state :: "app_state \<Rightarrow> catalog_entry list \<Rightarrow> app_state" where
  "list_state st ms = st\<lparr>progress := \<lparr>totalShows = length ms, processedShows = 0,
                                          totalOps = 0\<rparr>\<rparr>"

text \<open>
  An example: a list of two shows, of which the first makes the theme index answer 404
  and the second is known under its english title; and a user that does not exist.
\<close>

definition not_found :: "themes_data response" where
  "not_found = \<lparr>status = 404, statusText = ''Not Found'', retryAfterHeader = NoHeader,
                text_body = Some ''no'', json_body = Inl (Error ''not JSON'')\<rparr>"

definition bad_show :: catalog_entry where
  "bad_show = \<lparr>titleRomaji = ''Bad Show'', titleEnglish = [], titleNative = [],
               anilistId = 7, season = ''FALL'', year = Some 2020\<rparr>"

definition titan_show :: catalog_entry where
  "titan_show = \<lparr>titleRomaji = [], titleEnglish = ''Attack on Titan'', titleNative = [],
                 anilistId = 16498, season = ''SPRING'', year = Some 2013\<rparr>"

definition demo_world :: world where
  "demo_world =
     \<lparr>server = (\<lambda>url i.
         if url = theme_url ''Attack on Titan'' then server demo_net url i else not_found),
      random = (\<lambda>_. 0),
      userId_result = (\<lambda>name. if name = ''alice'' then Inr 1
                              else Inl (Error ''Utilisateur AniList introuvable'')),
      anime_result = (\<lambda>uid. Inr [bad_show, titan_show]),
      cancelled = (\<lambda>_. False)\<rparr>"

definition titan_card :: flashcard where
  "titan_card = \<lparr>card_id = ''16498::OP1'', card_anilistId = 16498, card_titleRomaji = [],
     card_titleEnglish = ''Attack on Titan'', card_titleNative = [], card_season = ''SPRING'',
     card_year = Some 2013, opNumber = Some 1, card_songTitle = ''Guren no Yumiya'',
     card_artists = [], card_videoUrl = ''https://a.example/op1.ogg''\<rparr>"

definition fresh_state :: app_state where
  "fresh_state = \<lparr>cards = [], idsRef = {},
     progress = \<lparr>totalShows = 0, processedShows = 0, totalOps = 0\<rparr>,
     error_text = [], loading = False, showAnswer = False, cache_state = Map.empty\<rparr>"

definition deck_state :: app_state where
  "deck_state = fresh_state\<lparr>cards := [titan_card]\<rparr>"

text \<open>
  The same user and the same list, while the theme index answers every request with 503.
\<close>

definition unavailable :: "themes_data response" where
  "unavailable = \<lparr>status = 503, statusText = ''Service Unavailable'', retryAfterHeader = NoHeader,
                  text_body = Some ''busy'', json_body = Inl (Error ''not JSON'')\<rparr>"

definition down_world :: world where
  "down_world = demo_world\<lparr>server := (\<lambda>url i. unavailable)\<rparr>"

section \<open>Import from the list service alone: \<^verbatim>\<open>importAnilist\<close> of \<^verbatim>\<open>src/App.jsx\<close>\<close>

definition DEFAULT_MAX_SHOWS :: nat where "DEFAULT_MAX_SHOWS = 1000"
definition MAX_CARDS_PER_SERIES :: nat where "MAX_CARDS_PER_SERIES = 5"

text \<open>A media entry of the answer of the list service, as far as the import reads it.\<close>

record episode =
  ep_title :: "string option"
  ep_url :: "string option"

record media =
  media_id :: int
  title_romaji :: "string option"
  title_english :: "string option"
  title_native :: "string option"
  streamingEpisodes :: "episode list option"

record card_App = identified +
  app_titleRomaji :: "string option"
  app_opNumber :: nat
  app_videoUrl :: "string option"
  app_artists :: "string list"
  app_songTitle :: string
  app_due :: int

text \<open>The truth value of a string that may be missing, and \<^verbatim>\<open>a || b\<close> on such strings.\<close>

definition truthy_str :: "string option \<Rightarrow> bool" where
  "truthy_str v = (case v of None \<Rightarrow> False | Some s \<Rightarrow> s \<noteq> [])"

definition or_opt :: "string option \<Rightarrow> string option \<Rightarrow> string option" where
  "or_opt a b = (if truthy_str a then a else b)"

text \<open>The card of an episode and the card of a series without usable episodes.\<close>

definition episode_card :: "int \<Rightarrow> media \<Rightarrow> episode \<Rightarrow> nat \<Rightarrow> nat \<Rightarrow> card_App" where
  "episode_card t m ep opNum gIndex =
     \<lparr>card_id = String_int (media_id m) @ ''::OP'' @ String_nat opNum @ ''::''
                 @ String_nat gIndex,
      app_titleRomaji = or_opt (title_romaji m) (or_opt (title_english m) (title_native m)),
      app_opNumber = opNum,
      app_videoUrl = ep_url ep,
      app_artists = [],
      app_songTitle = ''Opening '' @ String_nat opNum,
      app_due = t + 24 * 60 * 60 * 1000\<rparr>"

definition fallback_card :: "int \<Rightarrow> media \<Rightarrow> nat \<Rightarrow> card_App" where
  "fallback_card t m gIndex =
     \<lparr>card_id = String_int (media_id m) @ ''::OP1::'' @ String_nat gIndex,
      app_titleRomaji = or_opt (title_romaji m) (or_opt (title_english m) (title_native m)),
      app_opNumber = 1,
      app_videoUrl = None,
      app_artists = [],
      app_songTitle = ''Opening 1'',
      app_due = t + 24 * 60 * 60 * 1000\<rparr>"

text \<open>
  The inner \<^verbatim>\<open>forEach\<close> over the first episodes of a series.  Its state is
  \<^verbatim>\<open>globalIndex\<close>, the keys of \<^verbatim>\<open>seenOps\<close>, the set \<^verbatim>\<open>uniqueOps\<close> and the list
  \<^verbatim>\<open>seriesCards\<close>; \<open>idx\<close> is the index of the episode.
\<close>

fun episodes_loop :: "int \<Rightarrow> media \<Rightarrow> nat \<Rightarrow> episode list
    \<Rightarrow> nat \<times> string set \<times> nat set \<times> card_App list
    \<Rightarrow> nat \<times> string set \<times> nat set \<times> card_App list" where
  "episodes_loop t m idx [] s = s"
| "episodes_loop t m idx (ep # eps) (globalIndex, seenOps, uniqueOps, seriesCards) =
     (let globalIndex1 = globalIndex + 1;
          opNum = idx + 1;
          uniqueKey = String_int (media_id m) @ ''::OP'' @ String_nat opNum @ ''::''
                      @ or_else (ep_url ep) ''none''
      in if truthy_str (ep_url ep) \<and> uniqueKey \<notin> seenOps \<and> opNum \<notin> uniqueOps
         then episodes_loop t m (idx + 1) eps
                (globalIndex1, insert uniqueKey seenOps, insert opNum uniqueOps,
                 seriesCards @ [episode_card t m ep opNum globalIndex1])
         else episodes_loop t m (idx + 1) eps (globalIndex1, seenOps, uniqueOps, seriesCards))"

text \<open>The outer \<^verbatim>\<open>forEach\<close> over the entries, with the fallback for a series without cards.\<close>

fun media_loop :: "int \<Rightarrow> media list \<Rightarrow> nat \<times> string set \<times> card_App list
    \<Rightarrow> nat \<times> string set \<times> card_App list" where
  "media_loop t [] s = s"
| "media_loop t (m # ms) (globalIndex, seenOps, newCards) =
     (case episodes_loop t m 0 (take MAX_CARDS_PER_SERIES (dflt [] (streamingEpisodes m)))
             (globalIndex, seenOps, {}, []) of
        (globalIndex1, seenOps1, uniqueOps, seriesCards) \<Rightarrow>
          if seriesCards \<noteq> []
          then media_loop t ms (globalIndex1, seenOps1, newCards @ seriesCards)
          else
            (let globalIndex2 = globalIndex1 + 1;
                 fallbackId = String_int (media_id m) @ ''::OP1::'' @ String_nat globalIndex2
             in if fallbackId \<notin> seenOps1
                then media_loop t ms
                       (globalIndex2, insert fallbackId seenOps1,
                        newCards @ [fallback_card t m globalIndex2])
                else media_loop t ms (globalIndex2, seenOps1, newCards)))"

definition generate_cards :: "int \<Rightarrow> media list \<Rightarrow> card_App list" where
  "generate_cards t entries = snd (snd (media_loop t entries (0, {}, [])))"

text \<open>
  The state of the application of \<^verbatim>\<open>src/App.jsx\<close> that the import reads and writes: the
  React states \<^verbatim>\<open>cards\<close>, \<^verbatim>\<open>loading\<close> and \<^verbatim>\<open>error\<close>, and the blob of cards in local
  storage.
\<close>

record App_state =
  App_cards :: "card_App list"
  App_stored :: "card_App list"
  App_loading :: bool
  App_error :: string

text \<open>
  \<^verbatim>\<open>saveCards(cs)\<close>: the blob it leaves in local storage.  (The removal of the old blob
  above the size limit is followed by the write, whatever the size.)
\<close>

definition saveCards :: "card_App list \<Rightarrow> card_App list" where
  "saveCards cs = take DEFAULT_MAX_SHOWS cs"

definition no_username_msg :: string where
  "no_username_msg = ''Veuillez entrer un nom d'' @ [CHR 0x27] @ ''utilisateur AniList.''"

definition import_error_prefix :: string where
  "import_error_prefix = ''Erreur lors de l'' @ [CHR 0x27] @ ''import : ''"

fun message :: "error \<Rightarrow> string" where
  "message (Error msg) = msg"

text \<open>
  \<^verbatim>\<open>importAnilist(setCards, setLoading, setError, cards, username)\<close> at time \<open>t\<close>.
  \<open>entries_result username\<close> is the outcome of the request and of reading its answer:
  the media entries, or the error thrown.  The argument \<^verbatim>\<open>cards\<close> is the state
  \<^verbatim>\<open>cards\<close> at the call.
\<close>

definition importAnilist :: "(string \<Rightarrow> error + media list) \<Rightarrow> int \<Rightarrow> App_state \<Rightarrow> string
    \<Rightarrow> App_state" where
  "importAnilist entries_result t st username =
     (let st1 = st\<lparr>App_loading := True, App_error := []\<rparr>
      in if username = []
         then st1\<lparr>App_error := no_username_msg, App_loading := False\<rparr>
         else
           (case entries_result username of
              Inl e \<Rightarrow> st1\<lparr>App_error := import_error_prefix @ message e, App_loading := False\<rparr>
            | Inr entries \<Rightarrow>
                (let newCards = generate_cards t entries
                 in st1\<lparr>App_cards := take DEFAULT_MAX_SHOWS (dedupeById (App_cards st1 @ newCards)),
                        App_stored := saveCards (take DEFAULT_MAX_SHOWS (App_cards st @ newCards)),
                        App_loading := False\<rparr>)))"

text \<open>The state of the inner and of the outer loop of \<^verbatim>\<open>importAnilist\<close>, with the cards reduced to their ids.\<close>

definition ep_ids :: "nat \<times> string set \<times> nat set \<times> card_App list
    \<Rightarrow> nat \<times> string set \<times> nat set \<times> string list" where
  "ep_ids s = (case s of (g, seen, uniq, cs) \<Rightarrow> (g, seen, uniq, map card_id cs))"

definition media_ids :: "nat \<times> string set \<times> card_App list \<Rightarrow> nat \<times> string set \<times> string list" where
  "media_ids s = (case s of (g, seen, cs) \<Rightarrow> (g, seen, map card_id cs))"

text \<open>
  What a card generated for the entry \<open>m\<close> is, when \<^verbatim>\<open>globalIndex\<close> has the value
  \<open>gIndex\<close> as the outer loop reaches \<open>m\<close>: the card of the episode at a position
  \<open>j\<close> among the first \<^verbatim>\<open>MAX_CARDS_PER_SERIES\<close> episodes, with the opening number
  \<open>j + 1\<close> and the index \<open>gIndex + j + 1\<close>, the episode having a URL; or the fallback
  card, with the index \<open>gIndex + n + 1\<close> after the \<open>n\<close> episodes visited.
\<close>

definition App_card_at :: "int \<Rightarrow> media \<Rightarrow> nat \<Rightarrow> card_App \<Rightarrow> bool" where
  "App_card_at t m gIndex c =
     (let eps = take MAX_CARDS_PER_SERIES (dflt [] (streamingEpisodes m))
      in (\<exists>j \<in> set [0..<length eps].
            truthy_str (ep_url (eps ! j))
            \<and> c = episode_card t m (eps ! j) (j + 1) (gIndex + j + 1))
         \<or> c = fallback_card t m (gIndex + length eps + 1))"

text \<open>An example: two series, the first without episodes, the second with one.\<close>

definition media3 :: media where
  "media3 = \<lparr>media_id = 3, title_romaji = Some ''Mushishi'', title_english = None,
             title_native = None, streamingEpisodes = None\<rparr>"

definition media7 :: media where
  "media7 = \<lparr>media_id = 7, title_romaji = Some ''Witch Hunter Robin'', title_english = None,
             title_native = None,
             streamingEpisodes = Some [\<lparr>ep_title = Some ''Episode 1'',
                                        ep_url = Some ''https://v.example/1''\<rparr>]\<rparr>"

definition empty_App :: App_state where
  "empty_App = \<lparr>App_cards = [], App_stored = [], App_loading = False, App_error = []\<rparr>"

section \<open>Scheduler: counters\<close>

lemma attemptCount_grade_App:
  "attemptCount (grade_App c r) = attemptCount c + 1"
  by (cases r) (simp add: attemptCount_def sm2Schedule_App_def obj_or_empty_def dflt_def Let_def)

lemma successCount_grade_App:
  "successCount (grade_App c r) = successCount c + (if fst (snd r) > 0 then 1 else 0)"
  by (cases r) (simp add: successCount_def sm2Schedule_App_def obj_or_empty_def dflt_def Let_def)

lemma repetitionCount_grade_App:
  "repetitionCount (grade_App c r) = repetitionCount c + 1"
  by (cases r) (simp add: repetitionCount_def sm2Schedule_App_def obj_or_empty_def dflt_def Let_def)

lemma attemptCount_grade_all:
  "attemptCount (grade_all c rs) = attemptCount c + int (length rs)"
proof (induction rs arbitrary: c)
  case Nil
  show ?case by simp
next
  case (Cons r rs)
  have "attemptCount (grade_all (grade_App c r) rs)
        = attemptCount (grade_App c r) + int (length rs)"
    by (rule Cons.IH)
  then show ?case by (simp add: attemptCount_grade_App)
qed

lemma successCount_grade_all:
  "successCount (grade_all c rs) = successCount c + passes rs"
proof (induction rs arbitrary: c)
  case Nil
  show ?case by (simp add: passes_def)
next
  case (Cons r rs)
  have "successCount (grade_all (grade_App c r) rs)
        = successCount (grade_App c r) + passes rs"
    by (rule Cons.IH)
  then show ?case by (simp add: successCount_grade_App passes_def)
qed

lemma passes_bounds: "0 \<le> passes rs \<and> passes rs \<le> int (length rs)"
  by (simp add: passes_def)

lemma invariant_grade_all:
  assumes "0 \<le> successCount c" and "successCount c \<le> attemptCount c"
  shows "0 \<le> successCount (grade_all c rs)
         \<and> successCount (grade_all c rs) \<le> attemptCount (grade_all c rs)"
proof -
  have "0 \<le> passes rs" and "passes rs \<le> int (length rs)"
    using passes_bounds [of rs] by simp_all
  with assms show ?thesis
    by (simp add: successCount_grade_all attemptCount_grade_all)
qed

lemma counts_None: "attemptCount None = 0" "successCount None = 0" "repetitionCount None = 0"
  by (simp_all add: attemptCount_def successCount_def repetitionCount_def obj_or_empty_def
      empty_srs_def dflt_def)

lemma SM2_no_counters:
  "attempts (sm2Schedule_SM2 now c g) = None \<and> successes (sm2Schedule_SM2 now c g) = None"
  by (simp add: sm2Schedule_SM2_def Let_def)

text \<open>
  C7 (as amended).  Under the three-grade scheduler of \<^verbatim>\<open>src/App.jsx\<close>: every call
  increases the attempt counter by exactly 1; the success counter increases by 1 when the
  quality is above 0 and stays otherwise; after a sequence of reviews starting from the
  default (missing) state the attempt counter equals the length of the sequence; and
  \<open>0 \<le> successCount \<le> attemptCount\<close> is kept by every sequence of reviews, so it holds in
  every state reachable from the default one.  The four-grade ease-factor scheduler keeps
  no attempt or success counter: its result has neither field.
\<close>

theorem C7_counters:
  "attemptCount (grade_App c r) = attemptCount c + 1
   \<and> successCount (grade_App c r) = successCount c + (if fst (snd r) > 0 then 1 else 0)
   \<and> attemptCount (grade_all None rs) = int (length rs)
   \<and> 0 \<le> successCount (grade_all None rs)
   \<and> successCount (grade_all None rs) \<le> attemptCount (grade_all None rs)
   \<and> (0 \<le> successCount c \<and> successCount c \<le> attemptCount c \<longrightarrow>
        0 \<le> successCount (grade_all c rs)
        \<and> successCount (grade_all c rs) \<le> attemptCount (grade_all c rs))
   \<and> attempts (sm2Schedule_SM2 now c g) = None
   \<and> successes (sm2Schedule_SM2 now c g) = None"
proof -
  have a: "attemptCount (grade_all None rs) = int (length rs)"
    by (simp add: attemptCount_grade_all counts_None)
  have b: "0 \<le> successCount (grade_all None rs)
           \<and> successCount (grade_all None rs) \<le> attemptCount (grade_all None rs)"
    by (rule invariant_grade_all) (simp_all add: counts_None)
  have d: "0 \<le> successCount c \<and> successCount c \<le> attemptCount c \<longrightarrow>
        0 \<le> successCount (grade_all c rs)
        \<and> successCount (grade_all c rs) \<le> attemptCount (grade_all c rs)"
    using invariant_grade_all [of c rs] by blast
  show ?thesis
    using a b d attemptCount_grade_App [of c r] successCount_grade_App [of c r]
      SM2_no_counters [of now c g]
    by blast
qed

text \<open>
  Witness of C7: a card reviewed once before (one attempt, one success) is graded Easy,
  Again, Hard; the counters go from (1, 1) to (4, 3).
\<close>

theorem C7_counters_witness:
  "attemptCount (grade_all (Some (sm2Schedule_App 0 None 2 48 True))
                   [(10, 2, 48, True), (20, 0, 48, True), (30, 1, 48, True)]) = 4
   \<and> successCount (grade_all (Some (sm2Schedule_App 0 None 2 48 True))
                   [(10, 2, 48, True), (20, 0, 48, True), (30, 1, 48, True)]) = 3
   \<and> successCount (grade_App None (20, 0, 48, True)) = 0
   \<and> attemptCount (grade_App None (20, 0, 48, True)) = 1
   \<and> attemptCount (grade_all None [(10, 2, 48, True), (20, 0, 48, True)]) = 2"
proof -
  let ?c = "Some (sm2Schedule_App 0 None 2 48 True)"
  let ?rs = "[(10, 2, 48, True), (20, 0, 48, True), (30, 1, 48, True)] :: review list"
  have pre: "0 \<le> successCount ?c \<and> successCount ?c \<le> attemptCount ?c"
    by (simp add: successCount_def attemptCount_def sm2Schedule_App_def obj_or_empty_def
        empty_srs_def dflt_def Let_def)
  have inv: "0 \<le> successCount (grade_all ?c ?rs)
             \<and> successCount (grade_all ?c ?rs) \<le> attemptCount (grade_all ?c ?rs)"
    using C7_counters [of ?c "(20, 0, 48, True)" ?rs 0 Good] pre by blast
  have step: "attemptCount (grade_App None (20, 0, 48, True)) = attemptCount None + 1
              \<and> successCount (grade_App None (20, 0, 48, True)) = successCount None + 0"
    using C7_counters [of None "(20, 0, 48, True)" "[]" 0 Good] by simp
  have len: "attemptCount (grade_all None [(10, 2, 48, True), (20, 0, 48, True)]) = 2"
    using C7_counters [of None "(20, 0, 48, True)" "[(10, 2, 48, True), (20, 0, 48, True)]" 0 Good]
    by simp
  have vals: "attemptCount (grade_all ?c ?rs) = 4 \<and> successCount (grade_all ?c ?rs) = 3"
    by (simp add: successCount_def attemptCount_def sm2Schedule_App_def obj_or_empty_def
        empty_srs_def dflt_def Let_def)
  show ?thesis using inv step len vals by (simp add: counts_None)
qed

text \<open>
  Counterexample to C7 as stated ("under every scheduling policy"): one Good review of a
  new card under the four-grade scheduler leaves the attempt counter at 0.
\<close>

theorem C7_counterexample:
  "attemptCount (grade_SM2 None (0, Good)) \<noteq> attemptCount None + 1"
  by (simp add: attemptCount_def sm2Schedule_SM2_def obj_or_empty_def empty_srs_def
      dflt_def Let_def)

section \<open>Scheduler: repetition count and the relearn delay\<close>

lemma SM2_Again:
  "reps (sm2Schedule_SM2 now c Again) = Some 0
   \<and> due (sm2Schedule_SM2 now c Again) = Some (now + 600000)
   \<and> interval (sm2Schedule_SM2 now c Again) = Some 600000"
  by (simp add: sm2Schedule_SM2_def Let_def)

lemma SM2_not_Again:
  "g \<noteq> Again \<Longrightarrow> repetitionCount (grade_SM2 c (now, g)) = repetitionCount c + 1"
  by (cases g) (simp_all add: repetitionCount_def sm2Schedule_SM2_def obj_or_empty_def
      dflt_def Let_def)

lemma App_Again_due:
  "due (sm2Schedule_App now c 0 h d) = Some (now + (if d then 600000 else 0))"
  by (simp add: sm2Schedule_App_def Let_def)

text \<open>
  C8 (as amended).  Under the four-grade scheduler, grading Again yields repetition count
  0, interval 10 minutes and a due time exactly 10 minutes after the call, and every other
  grade increases the repetition count by one.  Under the three-grade scheduler of
  \<^verbatim>\<open>src/App.jsx\<close> every grade, Again included, increases the repetition count by one,
  and Again yields a due time 10 minutes after the call when \<open>diffAgain\<close> is set and the
  time of the call itself otherwise.
\<close>

theorem C8_repetitions:
  "reps (sm2Schedule_SM2 now c Again) = Some 0
   \<and> due (sm2Schedule_SM2 now c Again) = Some (now + 600000)
   \<and> interval (sm2Schedule_SM2 now c Again) = Some 600000
   \<and> (g \<noteq> Again \<longrightarrow> repetitionCount (grade_SM2 c (now, g)) = repetitionCount c + 1)
   \<and> repetitionCount (grade_App c (now, q, h, d)) = repetitionCount c + 1
   \<and> due (sm2Schedule_App now c 0 h d) = Some (now + (if d then 600000 else 0))"
  using SM2_Again [of now c] SM2_not_Again [of g c now]
    repetitionCount_grade_App [of c "(now, q, h, d)"] App_Again_due [of now c h d]
  by blast

text \<open>
  Witness of C8: a card with three repetitions, graded at time 1000.  Again resets the
  four-grade state, Good raises it to 4; under the three-grade scheduler Again raises it
  to 4.
\<close>

theorem C8_repetitions_witness:
  "reps (sm2Schedule_SM2 1000
          (Some \<lparr>ef = Some (5 / 2), interval = Some 900, reps = Some 3, attempts = None,
                 successes = None, due = Some 0\<rparr>) Again) = Some 0
   \<and> due (sm2Schedule_SM2 1000
          (Some \<lparr>ef = Some (5 / 2), interval = Some 900, reps = Some 3, attempts = None,
                 successes = None, due = Some 0\<rparr>) Again) = Some 601000
   \<and> repetitionCount (grade_SM2
          (Some \<lparr>ef = Some (5 / 2), interval = Some 900, reps = Some 3, attempts = None,
                 successes = None, due = Some 0\<rparr>) (1000, Good)) = 4
   \<and> repetitionCount (grade_App
          (Some \<lparr>ef = Some (5 / 2), interval = Some 900, reps = Some 3, attempts = None,
                 successes = None, due = Some 0\<rparr>) (1000, 0, 48, True)) = 4
   \<and> due (sm2Schedule_App 1000 None 0 48 False) = Some 1000"
proof -
  let ?c = "Some \<lparr>ef = Some (5 / 2), interval = Some 900, reps = Some 3, attempts = None,
                 successes = None, due = Some 0\<rparr>"
  have r: "repetitionCount ?c = 3"
    by (simp add: repetitionCount_def obj_or_empty_def dflt_def)
  have g: "Good \<noteq> Again" by simp
  show ?thesis
    using C8_repetitions [of 1000 ?c Good 0 48 True] C8_repetitions [of 1000 None Good 0 48 False]
      r g
    by simp
qed

text \<open>
  Counterexample to C8 as stated ("under every scheduling policy"): under the three-grade
  scheduler, grading Again on a card with three repetitions yields repetition count 4,
  not 0.
\<close>

theorem C8_counterexample:
  "reps (sm2Schedule_App 1000
          (Some \<lparr>ef = None, interval = Some 0, reps = Some 3, attempts = Some 3,
                 successes = Some 3, due = Some 0\<rparr>) 0 48 True) \<noteq> Some 0"
  by (simp add: sm2Schedule_App_def obj_or_empty_def dflt_def Let_def)

section \<open>HTTP client: the retry loop in closed form\<close>

lemma stop_from_step:
  "a < MAX_RETRIES \<Longrightarrow> transient (resp a) \<Longrightarrow> stop_from resp a = stop_from resp (Suc a)"
  by (simp add: stop_from_def upt_conv_Cons)

lemma stop_from_stop:
  "a < MAX_RETRIES \<Longrightarrow> \<not> transient (resp a) \<Longrightarrow> stop_from resp a = a"
  by (simp add: stop_from_def upt_conv_Cons)

lemma stop_from_cap: "MAX_RETRIES \<le> a \<Longrightarrow> stop_from resp a = a"
  by (simp add: stop_from_def)

lemma stop_from_ge: "a \<le> stop_from resp a"
  by (simp add: stop_from_def)

lemma stop_from_le: "a \<le> MAX_RETRIES \<Longrightarrow> stop_from resp a \<le> MAX_RETRIES"
proof -
  have "length (takeWhile (\<lambda>i. transient (resp i)) [a..<MAX_RETRIES]) \<le> length [a..<MAX_RETRIES]"
    by (rule length_takeWhile_le)
  then show "a \<le> MAX_RETRIES \<Longrightarrow> stop_from resp a \<le> MAX_RETRIES"
    by (simp add: stop_from_def)
qed

lemma retry_trace_step:
  "a < k \<Longrightarrow> retry_trace resp rnd url a k
     = Fetch url # Sleep (backoff (resp a) a (rnd a)) # retry_trace resp rnd url (Suc a) k"
  by (simp add: retry_trace_def upt_conv_Cons)

lemma retry_trace_stop: "retry_trace resp rnd url a a = [Fetch url]"
  by (simp add: retry_trace_def)

lemma fetchJSON_from_closed:
  "fetchJSON_from resp rnd url a
     = (final_result (resp (stop_from resp a)), retry_trace resp rnd url a (stop_from resp a))"
proof (induction resp rnd url a rule: fetchJSON_from.induct)
  case (1 resp rnd url attempt)
  show ?case
  proof (cases "transient (resp attempt) \<and> attempt < MAX_RETRIES")
    case True
    then have t: "\<not> ok (resp attempt)" "retryable (resp attempt)" "\<not> MAX_RETRIES \<le> attempt"
      by (simp_all add: transient_def)
    have ih: "fetchJSON_from resp rnd url (attempt + 1)
        = (final_result (resp (stop_from resp (attempt + 1))),
           retry_trace resp rnd url (attempt + 1) (stop_from resp (attempt + 1)))"
      using "1.IH" [OF refl t] .
    have s: "stop_from resp attempt = stop_from resp (Suc attempt)"
      using True by (simp add: stop_from_step)
    have lt: "attempt < stop_from resp (Suc attempt)"
      using stop_from_ge [of "Suc attempt" resp] by simp
    show ?thesis
      using t ih lt
      by (subst fetchJSON_from.simps) (simp add: Let_def s retry_trace_step)
  next
    case False
    then have s: "stop_from resp attempt = attempt"
      by (cases "attempt < MAX_RETRIES") (simp_all add: stop_from_stop stop_from_cap)
    from False show ?thesis
      by (subst fetchJSON_from.simps)
        (auto simp: Let_def s retry_trace_stop final_result_def transient_def)
  qed
qed

lemma fetchJSON_closed:
  "fetchJSON resp rnd url
     = (final_result (resp (stop_index resp)), retry_trace resp rnd url 0 (stop_index resp))"
  by (simp add: fetchJSON_def stop_index_def fetchJSON_from_closed)

lemma stop_index_le: "stop_index resp \<le> MAX_RETRIES"
  by (simp add: stop_index_def stop_from_le)

lemma stop_index_transient: "i < stop_index resp \<Longrightarrow> transient (resp i)"
proof -
  assume a: "i < stop_index resp"
  let ?P = "\<lambda>i. transient (resp i)"
  let ?xs = "[0..<MAX_RETRIES]"
  have len: "i < length (takeWhile ?P ?xs)"
    using a by (simp add: stop_index_def stop_from_def)
  have "length (takeWhile ?P ?xs) \<le> length ?xs" by (rule length_takeWhile_le)
  with len have iM: "i < MAX_RETRIES" by simp
  have "takeWhile ?P ?xs ! i = ?xs ! i" using len by (rule takeWhile_nth)
  moreover have "takeWhile ?P ?xs ! i \<in> set (takeWhile ?P ?xs)" using len by simp
  ultimately have "?P (?xs ! i)" by (metis set_takeWhileD)
  then show "transient (resp i)" using iM by simp
qed

lemma stop_index_final:
  "stop_index resp < MAX_RETRIES \<Longrightarrow> \<not> transient (resp (stop_index resp))"
proof -
  assume a: "stop_index resp < MAX_RETRIES"
  let ?P = "\<lambda>i. transient (resp i)"
  let ?xs = "[0..<MAX_RETRIES]"
  have len: "length (takeWhile ?P ?xs) < length ?xs"
    using a by (simp add: stop_index_def stop_from_def)
  then have "\<not> ?P (?xs ! length (takeWhile ?P ?xs))" by (rule nth_length_takeWhile)
  then show ?thesis using a by (simp add: stop_index_def stop_from_def)
qed

lemma stop_index_all_transient:
  "(\<forall>i. transient (resp i)) \<Longrightarrow> stop_index resp = MAX_RETRIES"
proof -
  assume "\<forall>i. transient (resp i)"
  then have tw: "takeWhile (\<lambda>i. transient (resp i)) [0..<MAX_RETRIES] = [0..<MAX_RETRIES]"
    by simp
  have "length (takeWhile (\<lambda>i. transient (resp i)) [0..<MAX_RETRIES]) = length [0..<MAX_RETRIES]"
    by (simp only: tw)
  then show ?thesis by (simp add: stop_index_def stop_from_def)
qed

lemma backoff_ge: "1000 \<le> backoff r a u"
proof -
  have "(1::nat) \<le> 2 ^ a" by simp
  then have "(1000::nat) \<le> 1000 * 2 ^ a" by simp
  then have "(1000::nat) \<le> min (1000 * 2 ^ a) 16000" by simp
  then have "1000 \<le> min (1000 * 2 ^ a) 16000 + nat \<lfloor>u * real JITTER_MS\<rfloor>"
    by (rule trans_le_add1)
  then show ?thesis by (simp add: backoff_def Let_def)
qed

lemma well_paced_retry_trace: "a \<le> k \<Longrightarrow> well_paced (retry_trace resp rnd url a k)"
proof (induction "k - a" arbitrary: a)
  case 0
  then show ?case by (simp add: retry_trace_stop)
next
  case (Suc n)
  then have "a < k" and "n = k - Suc a" and "Suc a \<le> k" by simp_all
  then show ?case using Suc.hyps(1) [of "Suc a"] by (simp add: retry_trace_step backoff_ge)
qed

lemma requests_retry_trace: "a \<le> k \<Longrightarrow> requests (retry_trace resp rnd url a k) = Suc (k - a)"
proof (induction "k - a" arbitrary: a)
  case 0
  then show ?case by (simp add: retry_trace_stop requests_def)
next
  case (Suc n)
  then have "a < k" and "n = k - Suc a" and "Suc a \<le> k" by simp_all
  then show ?case using Suc.hyps(1) [of "Suc a"]
    by (simp add: retry_trace_step requests_def)
qed

lemma jitter_range: "0 \<le> u \<Longrightarrow> u < 1 \<Longrightarrow> nat \<lfloor>u * real JITTER_MS\<rfloor> < JITTER_MS"
proof -
  assume "0 \<le> u" "u < 1"
  then have "u * 120 < 120" by simp
  then have "\<lfloor>u * 120\<rfloor> < 120" by (simp add: floor_less_iff)
  then have "nat \<lfloor>u * 120\<rfloor> < 120" by linarith
  then show ?thesis by (simp add: JITTER_MS_def)
qed

lemma backoff_cases:
  "backoff r a u =
     (case retryAfterHeader r of
        DeltaSeconds n \<Rightarrow>
          if n \<noteq> 0 then max 1000 (n * 1000)
          else min (1000 * 2 ^ a) 16000 + nat \<lfloor>u * real JITTER_MS\<rfloor>
      | _ \<Rightarrow> min (1000 * 2 ^ a) 16000 + nat \<lfloor>u * real JITTER_MS\<rfloor>)"
  by (simp add: backoff_def truthy_num_def dflt_def Let_def split: retry_after.splits)


text \<open>
  C5 (as amended).  For every sequence of responses, \<^verbatim>\<open>fetchJSON\<close> retries exactly the
  non-successful responses with status 429 or in [500,600), at most \<open>MAX_RETRIES\<close> = 6
  times: the trace is one request and one wait per retried response, then a last request.
  The wait before a retry is \<open>max 1000 (n * 1000)\<close> ms when the response carries a
  \<^verbatim>\<open>Retry-After\<close> header of \<open>n \<noteq> 0\<close> seconds, and
  \<open>min (1000 * 2 ^ attempt) 16000\<close> ms plus a jitter otherwise (header missing, zero, or
  not a number); the jitter is below \<open>JITTER_MS\<close> = 120 ms.  The result is decided by
  the last response: its parsed body when it is successful, and otherwise an error made of
  its status, status text and body text, which is the response after six retries or the
  first response with any other status.
\<close>

theorem C5_retry_policy:
  "fetchJSON resp rnd url
     = (final_result (resp (stop_index resp)), retry_trace resp rnd url 0 (stop_index resp))
   \<and> stop_index resp \<le> MAX_RETRIES
   \<and> (\<forall>i < stop_index resp. transient (resp i))
   \<and> (stop_index resp < MAX_RETRIES \<longrightarrow> \<not> transient (resp (stop_index resp)))
   \<and> backoff r a u =
       (case retryAfterHeader r of
          DeltaSeconds n \<Rightarrow>
            if n \<noteq> 0 then max 1000 (n * 1000)
            else min (1000 * 2 ^ a) 16000 + nat \<lfloor>u * real JITTER_MS\<rfloor>
        | _ \<Rightarrow> min (1000 * 2 ^ a) 16000 + nat \<lfloor>u * real JITTER_MS\<rfloor>)
   \<and> (0 \<le> u \<and> u < 1 \<longrightarrow> nat \<lfloor>u * real JITTER_MS\<rfloor> < JITTER_MS)"
  using fetchJSON_closed [of resp rnd url] stop_index_le [of resp] stop_index_transient [of _ resp]
    stop_index_final [of resp] backoff_cases [of r a u] jitter_range [of u]
  by blast

lemma stop_index_resp_demo: "stop_index resp_demo = 2"
  by (simp add: stop_index_def stop_from_def MAX_RETRIES_def resp_demo_def transient_def ok_def
      retryable_def upt_rec)

text \<open>
  Witness of C5: a 503 with \<^verbatim>\<open>Retry-After: 2\<close>, a 429 without the header, then a 200
  whose body is 7, with every random number 1/2.
\<close>

theorem C5_retry_policy_witness:
  "fetchJSON resp_demo (\<lambda>_. 1 / 2) ''u''
     = (Inr 7, [Fetch ''u'', Sleep 2000, Fetch ''u'', Sleep 2060, Fetch ''u''])
   \<and> transient (resp_demo 1) \<and> \<not> transient (resp_demo 2)
   \<and> backoff (resp_demo 0) 3 (1 / 2) = 2000
   \<and> backoff (resp_demo 1) 3 (1 / 2) = 8060
   \<and> nat \<lfloor>(1 / 2 :: real) * real JITTER_MS\<rfloor> < JITTER_MS"
proof -
  have u: "(0::real) \<le> 1 / 2 \<and> (1 / 2 :: real) < 1" by simp
  have a: "\<forall>i<2. transient (resp_demo i)" and b: "\<not> transient (resp_demo 2)"
    and c: "fetchJSON resp_demo (\<lambda>_. 1 / 2) ''u''
         = (final_result (resp_demo 2), retry_trace resp_demo (\<lambda>_. 1 / 2) ''u'' 0 2)"
    and j: "nat \<lfloor>(1 / 2 :: real) * real JITTER_MS\<rfloor> < JITTER_MS"
    using C5_retry_policy [of resp_demo "\<lambda>_. 1 / 2" "''u''" "resp_demo 0" 3 "1 / 2"] u
    by (simp_all add: stop_index_resp_demo MAX_RETRIES_def)
  have b0: "backoff (resp_demo 0) 3 (1 / 2) = 2000"
    using C5_retry_policy [of resp_demo "\<lambda>_. 1 / 2" "''u''" "resp_demo 0" 3 "1 / 2"]
    by (simp add: resp_demo_def)
  have b1: "backoff (resp_demo 1) 3 (1 / 2) = 8060"
    using C5_retry_policy [of resp_demo "\<lambda>_. 1 / 2" "''u''" "resp_demo 1" 3 "1 / 2"]
    by (simp add: resp_demo_def JITTER_MS_def)
  have t: "retry_trace resp_demo (\<lambda>_. 1 / 2) ''u'' 0 2
           = [Fetch ''u'', Sleep 2000, Fetch ''u'', Sleep 2060, Fetch ''u'']"
    by (simp add: retry_trace_def upt_rec backoff_def truthy_num_def dflt_def resp_demo_def JITTER_MS_def)
  have f: "final_result (resp_demo 2) = Inr 7"
    by (simp add: final_result_def resp_demo_def ok_def)
  from a have "transient (resp_demo 1)" by simp
  with b c j b0 b1 t f show ?thesis by simp
qed

text \<open>
  Counterexample to C5 as stated: two 503 responses with \<^verbatim>\<open>Retry-After: 0\<close>, then a 200,
  with no jitter.  The header is present, and the claimed waits are
  \<open>max 1000 (0 * 1000)\<close> = 1000 ms each; the second wait of the code is 2000 ms.
\<close>

theorem C5_counterexample:
  "snd (fetchJSON resp_zero (\<lambda>_. 0) ''u'')
     \<noteq> [Fetch ''u'', Sleep (max 1000 (0 * 1000)), Fetch ''u'', Sleep (max 1000 (0 * 1000)),
         Fetch ''u'']"
  by (simp add: fetchJSON_def fetchJSON_from.simps resp_zero_def ok_def retryable_def
      MAX_RETRIES_def backoff_def truthy_num_def dflt_def JITTER_MS_def)

text \<open>
  C6.  \<^verbatim>\<open>fetchJSON\<close> is a total function: for every sequence of responses it returns a
  body or an error.  It makes at most \<open>MAX_RETRIES + 1\<close> = 7 requests, and its trace is
  well paced: every request after the first directly follows a sleep of at least one
  second.  When every response is a retried failure it makes exactly 7 requests and fails
  with the error of the seventh response.
\<close>

theorem C6_bounded_retry:
  "requests (snd (fetchJSON resp rnd url)) \<le> MAX_RETRIES + 1
   \<and> well_paced (snd (fetchJSON resp rnd url))
   \<and> ((\<forall>i. transient (resp i)) \<longrightarrow>
        fst (fetchJSON resp rnd url) = Inl (http_error (resp MAX_RETRIES))
        \<and> requests (snd (fetchJSON resp rnd url)) = MAX_RETRIES + 1)"
proof -
  have tr: "snd (fetchJSON resp rnd url) = retry_trace resp rnd url 0 (stop_index resp)"
    and res: "fst (fetchJSON resp rnd url) = final_result (resp (stop_index resp))"
    by (simp_all add: fetchJSON_closed)
  have n: "requests (snd (fetchJSON resp rnd url)) = Suc (stop_index resp)"
    by (simp add: tr requests_retry_trace)
  have "requests (snd (fetchJSON resp rnd url)) \<le> MAX_RETRIES + 1"
    using stop_index_le [of resp] by (simp add: n)
  moreover have "well_paced (snd (fetchJSON resp rnd url))"
    by (simp add: tr well_paced_retry_trace)
  moreover have "(\<forall>i. transient (resp i)) \<longrightarrow>
        fst (fetchJSON resp rnd url) = Inl (http_error (resp MAX_RETRIES))
        \<and> requests (snd (fetchJSON resp rnd url)) = MAX_RETRIES + 1"
  proof
    assume all: "\<forall>i. transient (resp i)"
    then have k: "stop_index resp = MAX_RETRIES" by (rule stop_index_all_transient)
    from all have "\<not> ok (resp MAX_RETRIES)" by (simp add: transient_def)
    then show "fst (fetchJSON resp rnd url) = Inl (http_error (resp MAX_RETRIES))
        \<and> requests (snd (fetchJSON resp rnd url)) = MAX_RETRIES + 1"
      by (simp add: res n k final_result_def)
  qed
  ultimately show ?thesis by blast
qed

text \<open>Witness of C6: a server that answers 503 for ever.\<close>

theorem C6_bounded_retry_witness:
  "(\<forall>i. transient (resp_busy i))
   \<and> fst (fetchJSON resp_busy (\<lambda>_. 0) ''u'')
       = Inl (Error (''503 Service Unavailable '' @ em_dash @ '' busy''))
   \<and> requests (snd (fetchJSON resp_busy (\<lambda>_. 0) ''u'')) = 7
   \<and> well_paced (snd (fetchJSON resp_busy (\<lambda>_. 0) ''u''))"
proof -
  have all: "\<forall>i. transient (resp_busy i)"
    by (simp add: transient_def resp_busy_def ok_def retryable_def)
  have e: "http_error (resp_busy MAX_RETRIES)
           = Error (''503 Service Unavailable '' @ em_dash @ '' busy'')"
    by (simp add: http_error_def resp_busy_def String_nat.simps em_dash_def)
  show ?thesis
    using C6_bounded_retry [of resp_busy "\<lambda>_. 0" "''u''"] all e
    by (simp add: MAX_RETRIES_def)
qed

section \<open>Theme resolver: cache hits, the variant chain, the first record\<close>

lemma resolver_refines:
  "getOpeningsForAniListId cache n i ts = resolve_spec cache n i ts"
proof (cases "cache (String_int i)")
  case (Some cached)
  then show ?thesis by (simp add: getOpeningsForAniListId_def resolve_spec_def)
next
  case None
  obtain r1 t1 where f1: "fetchByUrl n (theme_url (titleRomaji ts)) = (r1, t1)" by fastforce
  obtain r2 t2 where f2: "fetchByUrl n (theme_url (titleEnglish ts)) = (r2, t2)" by fastforce
  obtain r3 t3 where f3: "fetchByUrl n (theme_url (titleNative ts)) = (r3, t3)" by fastforce
  show ?thesis
    using None f1 f2 f3
    by (cases r1; cases r2; cases r3)
      (simp_all add: getOpeningsForAniListId_def resolve_spec_def variants_def Let_def)
qed

lemma try_variants_urls:
  "map fst (snd (try_variants n ts))
     = map theme_url (take (length (snd (try_variants n ts))) ts)"
proof (induction ts)
  case Nil
  show ?case by simp
next
  case (Cons t ts)
  then show ?case
    by (auto split: prod.splits sum.splits)
qed


lemma openings_first_record:
  "openings_of_data \<lparr>anime = Some (a # rest)\<rparr>
     = map opening_of_theme (filter is_OP (dflt [] (animethemes a)))"
  by (simp add: openings_of_data_def dflt_def)

lemma fetchByUrl_first_record:
  "fetchJSON (server n url) (random n) url = (Inr \<lparr>anime = Some (a # rest)\<rparr>, tr) \<Longrightarrow>
   fetchByUrl n url = (Inr (map opening_of_theme (filter is_OP (dflt [] (animethemes a)))), tr)"
  by (simp add: fetchByUrl_def openings_first_record)

lemma resolver_skips_empty_romaji:
  assumes miss: "cache (String_int i) = None"
    and t: "titleRomaji ts \<noteq> []"
    and f: "fetchByUrl n (theme_url (titleRomaji ts)) = (Inr [], tr)"
  shows "getOpeningsForAniListId cache n i ts
     = (case getOpeningsForAniListId cache n i (ts\<lparr>titleRomaji := []\<rparr>) of
          (res, c, calls) \<Rightarrow> (res, c, (theme_url (titleRomaji ts), tr) # calls))"
proof -
  have v: "variants ts = titleRomaji ts # variants (ts\<lparr>titleRomaji := []\<rparr>)"
    using t by (simp add: variants_def)
  show ?thesis
    using miss f
    by (simp add: resolver_refines resolve_spec_def v split: prod.splits sum.splits)
qed

text \<open>
  C3.  When the cache holds an entry for the catalog id, the empty list included, the
  resolver returns the cached list, does not call \<^verbatim>\<open>setCache\<close>, and makes no call of
  \<^verbatim>\<open>fetchJSON\<close>, hence no request.
\<close>

theorem C3_cache_hit:
  "cache (String_int aid) = Some cached \<Longrightarrow>
     getOpeningsForAniListId cache n aid ts = (Inr cached, None, [])
     \<and> requests_of (snd (snd (getOpeningsForAniListId cache n aid ts))) = 0"
  by (simp add: getOpeningsForAniListId_def requests_of_def)

text \<open>Witness of C3: the cache holds the empty list for the id 16498.\<close>

theorem C3_cache_hit_witness:
  "[''16498'' \<mapsto> []] (String_int 16498) = Some ([] :: theme_record list)
   \<and> getOpeningsForAniListId [''16498'' \<mapsto> []] demo_net 16498 demo_titles = (Inr [], None, [])
   \<and> requests_of (snd (snd (getOpeningsForAniListId [''16498'' \<mapsto> []] demo_net 16498
         demo_titles))) = 0"
proof -
  have k: "[''16498'' \<mapsto> []] (String_int 16498) = Some ([] :: theme_record list)"
    by (simp add: String_int_def String_nat.simps)
  have r: "getOpeningsForAniListId [''16498'' \<mapsto> []] demo_net 16498 demo_titles
             = (Inr [], None, [])
           \<and> requests_of (snd (snd (getOpeningsForAniListId [''16498'' \<mapsto> []] demo_net 16498
                demo_titles))) = 0"
    using C3_cache_hit [where cache = "[''16498'' \<mapsto> []]" and aid = 16498
        and cached = "[]" and n = demo_net and ts = demo_titles] k
    by blast
  show ?thesis using k r by blast
qed

text \<open>
  C4.  On a cache miss the resolver does what \<open>try_variants\<close> does on the non-empty
  title variants in the order romaji, english, native: one query per tried variant, in
  that order, stopping at the first non-empty result, the empty list when every variant
  yields nothing.  Whenever it returns a list it has written that list into the cache
  under the catalog id.  In particular, when the romaji query yields nothing and the
  english query yields one record, it returns that record, caches it, and has made
  exactly these two queries.
\<close>

theorem C4_cache_miss:
  "cache (String_int aid) = None \<Longrightarrow>
     getOpeningsForAniListId cache n aid ts
       = (case try_variants n (variants ts) of
            (Inl e, calls) \<Rightarrow> (Inl e, None, calls)
          | (Inr results, calls) \<Rightarrow>
              (Inr results, Some (cache(String_int aid \<mapsto> results)), calls))
     \<and> map fst (snd (try_variants n (variants ts)))
         = map theme_url (take (length (snd (try_variants n (variants ts)))) (variants ts))
     \<and> (fst (getOpeningsForAniListId cache n aid ts) = Inr results \<longrightarrow>
          fst (snd (getOpeningsForAniListId cache n aid ts))
            = Some (cache(String_int aid \<mapsto> results)))
     \<and> (titleRomaji ts \<noteq> [] \<and> titleEnglish ts \<noteq> []
          \<and> fst (fetchByUrl n (theme_url (titleRomaji ts))) = Inr []
          \<and> fst (fetchByUrl n (theme_url (titleEnglish ts))) = Inr [x] \<longrightarrow>
          fst (getOpeningsForAniListId cache n aid ts) = Inr [x]
          \<and> fst (snd (getOpeningsForAniListId cache n aid ts))
              = Some (cache(String_int aid \<mapsto> [x]))
          \<and> map fst (snd (snd (getOpeningsForAniListId cache n aid ts)))
              = [theme_url (titleRomaji ts), theme_url (titleEnglish ts)])"
proof -
  assume miss: "cache (String_int aid) = None"
  have a: "getOpeningsForAniListId cache n aid ts
       = (case try_variants n (variants ts) of
            (Inl e, calls) \<Rightarrow> (Inl e, None, calls)
          | (Inr results, calls) \<Rightarrow>
              (Inr results, Some (cache(String_int aid \<mapsto> results)), calls))"
    using miss by (simp add: resolver_refines resolve_spec_def)
  have b: "fst (getOpeningsForAniListId cache n aid ts) = Inr results \<longrightarrow>
          fst (snd (getOpeningsForAniListId cache n aid ts))
            = Some (cache(String_int aid \<mapsto> results))"
    by (auto simp: a split: prod.splits sum.splits)
  have c: "titleRomaji ts \<noteq> [] \<and> titleEnglish ts \<noteq> []
          \<and> fst (fetchByUrl n (theme_url (titleRomaji ts))) = Inr []
          \<and> fst (fetchByUrl n (theme_url (titleEnglish ts))) = Inr [x] \<longrightarrow>
          fst (getOpeningsForAniListId cache n aid ts) = Inr [x]
          \<and> fst (snd (getOpeningsForAniListId cache n aid ts))
              = Some (cache(String_int aid \<mapsto> [x]))
          \<and> map fst (snd (snd (getOpeningsForAniListId cache n aid ts)))
              = [theme_url (titleRomaji ts), theme_url (titleEnglish ts)]"
  proof
    assume h: "titleRomaji ts \<noteq> [] \<and> titleEnglish ts \<noteq> []
          \<and> fst (fetchByUrl n (theme_url (titleRomaji ts))) = Inr []
          \<and> fst (fetchByUrl n (theme_url (titleEnglish ts))) = Inr [x]"
    obtain t1 where f1: "fetchByUrl n (theme_url (titleRomaji ts)) = (Inr [], t1)"
      using h by (cases "fetchByUrl n (theme_url (titleRomaji ts))") simp
    obtain t2 where f2: "fetchByUrl n (theme_url (titleEnglish ts)) = (Inr [x], t2)"
      using h by (cases "fetchByUrl n (theme_url (titleEnglish ts))") simp
    show "fst (getOpeningsForAniListId cache n aid ts) = Inr [x]
          \<and> fst (snd (getOpeningsForAniListId cache n aid ts))
              = Some (cache(String_int aid \<mapsto> [x]))
          \<and> map fst (snd (snd (getOpeningsForAniListId cache n aid ts)))
              = [theme_url (titleRomaji ts), theme_url (titleEnglish ts)]"
      using h f1 f2 by (simp add: a variants_def)
  qed
  show ?thesis using a b c try_variants_urls [of n "variants ts"] by blast
qed

lemma demo_urls:
  "theme_url ''Shingeki no Kyojin'' \<noteq> theme_url ''Attack on Titan''"
  by (simp add: theme_url_def encodeURIComponent_def encode_char_def unreserved_def hex_digit_def)

lemma demo_fetch_romaji:
  "fst (fetchByUrl demo_net (theme_url ''Shingeki no Kyojin'')) = Inr []"
  by (simp add: fetchByUrl_def demo_net_def demo_urls fetchJSON_def fetchJSON_from.simps
      ok_response_def ok_def openings_of_data_def dflt_def)

lemma demo_fetch_english:
  "fst (fetchByUrl demo_net (theme_url ''Attack on Titan'')) = Inr [demo_op1]"
  by (simp add: fetchByUrl_def demo_net_def fetchJSON_def fetchJSON_from.simps ok_response_def
      ok_def openings_of_data_def dflt_def is_OP_def op1_theme_def ed1_theme_def toUpperCase_def
      upper_char_def opening_of_theme_def or_else_def demo_op1_def)

text \<open>Witness of C4: the example index, which knows the show under its english title only.\<close>

theorem C4_cache_miss_witness:
  "Map.empty (String_int 16498) = (None :: theme_record list option)
   \<and> fst (getOpeningsForAniListId Map.empty demo_net 16498 demo_titles) = Inr [demo_op1]
   \<and> fst (snd (getOpeningsForAniListId Map.empty demo_net 16498 demo_titles))
       = Some [''16498'' \<mapsto> [demo_op1]]
   \<and> map fst (snd (snd (getOpeningsForAniListId Map.empty demo_net 16498 demo_titles)))
       = [theme_url ''Shingeki no Kyojin'', theme_url ''Attack on Titan'']"
proof -
  have miss: "Map.empty (String_int 16498) = (None :: theme_record list option)" by simp
  have k: "String_int 16498 = ''16498''" by (simp add: String_int_def String_nat.simps)
  have h: "titleRomaji demo_titles \<noteq> [] \<and> titleEnglish demo_titles \<noteq> []
          \<and> fst (fetchByUrl demo_net (theme_url (titleRomaji demo_titles))) = Inr []
          \<and> fst (fetchByUrl demo_net (theme_url (titleEnglish demo_titles))) = Inr [demo_op1]"
    using demo_fetch_romaji demo_fetch_english by (simp add: demo_titles_def)
  note m = C4_cache_miss [where cache = Map.empty and aid = 16498 and n = demo_net
        and ts = demo_titles and results = "[demo_op1]" and x = demo_op1, OF miss]
  from m h have c:
    "fst (getOpeningsForAniListId Map.empty demo_net 16498 demo_titles) = Inr [demo_op1]
     \<and> fst (snd (getOpeningsForAniListId Map.empty demo_net 16498 demo_titles))
         = Some [String_int 16498 \<mapsto> [demo_op1]]
     \<and> map fst (snd (snd (getOpeningsForAniListId Map.empty demo_net 16498 demo_titles)))
         = [theme_url (titleRomaji demo_titles), theme_url (titleEnglish demo_titles)]"
    by blast
  have t: "titleRomaji demo_titles = ''Shingeki no Kyojin''"
    "titleEnglish demo_titles = ''Attack on Titan''"
    by (simp_all add: demo_titles_def)
  show ?thesis using c miss by (simp only: k t)
qed

text \<open>
  C10.  Of a response with several matched records the resolver reads the themes of the
  first record only: the result is the same as for the first record alone.  When the
  first record has no theme of type OP, the query counts as yielding nothing, whatever the
  later records hold: the resolver goes on as if the title had been missing, with the
  query added to its calls.
\<close>

theorem C10_first_record_only:
  "openings_of_data \<lparr>anime = Some (a # rest)\<rparr>
     = map opening_of_theme (filter is_OP (dflt [] (animethemes a)))
   \<and> openings_of_data \<lparr>anime = Some (a # rest)\<rparr> = openings_of_data \<lparr>anime = Some [a]\<rparr>
   \<and> (fetchJSON (server n url) (random n) url = (Inr \<lparr>anime = Some (a # rest)\<rparr>, tr) \<longrightarrow>
        fetchByUrl n url
          = (Inr (map opening_of_theme (filter is_OP (dflt [] (animethemes a)))), tr))
   \<and> (cache (String_int i) = None \<and> titleRomaji ts \<noteq> []
        \<and> fetchJSON (server n (theme_url (titleRomaji ts))) (random n) (theme_url (titleRomaji ts))
            = (Inr \<lparr>anime = Some (a # rest)\<rparr>, tr)
        \<and> filter is_OP (dflt [] (animethemes a)) = [] \<longrightarrow>
        getOpeningsForAniListId cache n i ts
          = (case getOpeningsForAniListId cache n i (ts\<lparr>titleRomaji := []\<rparr>) of
               (res, c, calls) \<Rightarrow> (res, c, (theme_url (titleRomaji ts), tr) # calls)))"
proof -
  have d: "cache (String_int i) = None \<and> titleRomaji ts \<noteq> []
        \<and> fetchJSON (server n (theme_url (titleRomaji ts))) (random n) (theme_url (titleRomaji ts))
            = (Inr \<lparr>anime = Some (a # rest)\<rparr>, tr)
        \<and> filter is_OP (dflt [] (animethemes a)) = [] \<longrightarrow>
        getOpeningsForAniListId cache n i ts
          = (case getOpeningsForAniListId cache n i (ts\<lparr>titleRomaji := []\<rparr>) of
               (res, c, calls) \<Rightarrow> (res, c, (theme_url (titleRomaji ts), tr) # calls))"
  proof
    assume h: "cache (String_int i) = None \<and> titleRomaji ts \<noteq> []
        \<and> fetchJSON (server n (theme_url (titleRomaji ts))) (random n) (theme_url (titleRomaji ts))
            = (Inr \<lparr>anime = Some (a # rest)\<rparr>, tr)
        \<and> filter is_OP (dflt [] (animethemes a)) = []"
    then have "fetchByUrl n (theme_url (titleRomaji ts)) = (Inr [], tr)"
      using fetchByUrl_first_record [of n "theme_url (titleRomaji ts)" a rest tr] by simp
    with h show "getOpeningsForAniListId cache n i ts
          = (case getOpeningsForAniListId cache n i (ts\<lparr>titleRomaji := []\<rparr>) of
               (res, c, calls) \<Rightarrow> (res, c, (theme_url (titleRomaji ts), tr) # calls))"
      using resolver_skips_empty_romaji [of cache i ts n tr] by blast
  qed
  show ?thesis
    using openings_first_record [of a rest] openings_first_record [of a "[]"]
      fetchByUrl_first_record [of n url a rest tr] d
    by simp
qed

lemma demo2_fetchJSON:
  "fetchJSON (server demo_net2 (theme_url ''Shingeki no Kyojin'')) (random demo_net2)
      (theme_url ''Shingeki no Kyojin'')
     = (Inr \<lparr>anime = Some [\<lparr>animethemes = Some [ed1_theme]\<rparr>,
                             \<lparr>animethemes = Some [op2_theme]\<rparr>]\<rparr>,
        [Fetch (theme_url ''Shingeki no Kyojin'')])"
  by (simp add: demo_net2_def demo_urls fetchJSON_def fetchJSON_from.simps ok_response_def
      ok_def two_records_def)

lemma demo2_fetch_english:
  "fetchByUrl demo_net2 (theme_url ''Attack on Titan'')
     = (Inr [demo_op1], [Fetch (theme_url ''Attack on Titan'')])"
  by (simp add: fetchByUrl_def demo_net2_def fetchJSON_def fetchJSON_from.simps ok_response_def
      ok_def openings_of_data_def dflt_def is_OP_def op1_theme_def ed1_theme_def toUpperCase_def
      upper_char_def opening_of_theme_def or_else_def demo_op1_def)

text \<open>
  Witness of C10: the second example index.  The opening of the second record of the
  romaji answer is lost; the result comes from the english query.
\<close>

theorem C10_first_record_only_witness:
  "is_OP op2_theme \<and> \<not> is_OP ed1_theme
   \<and> openings_of_data two_records = []
   \<and> fst (getOpeningsForAniListId Map.empty demo_net2 16498 demo_titles) = Inr [demo_op1]"
proof -
  let ?a = "\<lparr>animethemes = Some [ed1_theme]\<rparr>"
  let ?rest = "[\<lparr>animethemes = Some [op2_theme]\<rparr>]"
  let ?u = "theme_url ''Shingeki no Kyojin''"
  have ops: "is_OP op2_theme \<and> \<not> is_OP ed1_theme"
    by (simp add: is_OP_def op2_theme_def ed1_theme_def toUpperCase_def upper_char_def dflt_def)
  have t: "titleRomaji demo_titles = ''Shingeki no Kyojin''" by (simp add: demo_titles_def)
  have h: "Map.empty (String_int 16498) = (None :: theme_record list option)
        \<and> titleRomaji demo_titles \<noteq> []
        \<and> fetchJSON (server demo_net2 (theme_url (titleRomaji demo_titles))) (random demo_net2)
             (theme_url (titleRomaji demo_titles))
            = (Inr \<lparr>anime = Some (?a # ?rest)\<rparr>, [Fetch ?u])
        \<and> filter is_OP (dflt [] (animethemes ?a)) = []"
    using ops demo2_fetchJSON by (simp add: t dflt_def)
  note m = C10_first_record_only [where a = ?a and rest = ?rest and n = demo_net2
      and url = ?u and tr = "[Fetch ?u]" and cache = Map.empty and i = 16498
      and ts = demo_titles]
  from m have e: "openings_of_data \<lparr>anime = Some (?a # ?rest)\<rparr>
      = map opening_of_theme (filter is_OP (dflt [] (animethemes ?a)))"
    by blast
  have none: "openings_of_data two_records = []"
    using e ops by (simp add: two_records_def dflt_def)
  from m h have r: "getOpeningsForAniListId Map.empty demo_net2 16498 demo_titles
      = (case getOpeningsForAniListId Map.empty demo_net2 16498
                (demo_titles\<lparr>titleRomaji := []\<rparr>) of
           (res, c, calls) \<Rightarrow> (res, c, (theme_url (titleRomaji demo_titles), [Fetch ?u]) # calls))"
    by blast
  have "fst (getOpeningsForAniListId Map.empty demo_net2 16498 demo_titles) = Inr [demo_op1]"
    by (subst r) (simp add: getOpeningsForAniListId_def demo_titles_def demo2_fetch_english)
  with ops none show ?thesis by blast
qed

section \<open>Import run: fatal errors\<close>

lemma resolver_error_no_setCache:
  "fst (getOpeningsForAniListId cache n i ts) = Inl e \<Longrightarrow>
   fst (snd (getOpeningsForAniListId cache n i ts)) = None"
  by (auto simp: resolver_refines resolve_spec_def split: option.splits prod.splits sum.splits)

lemma process_entry_fail:
  assumes "fst (resolve_entry cache w m) = Inl e"
  shows "process_entry cache w st m
     = st\<lparr>progress := (progress st)\<lparr>processedShows := processedShows (progress st) + 1\<rparr>\<rparr>"
proof -
  obtain c calls where r: "resolve_entry cache w m = (Inl e, c, calls)"
    using assms by (cases "resolve_entry cache w m") auto
  have "fst (snd (resolve_entry cache w m)) = None"
    using assms unfolding resolve_entry_def by (rule resolver_error_no_setCache)
  with r have "c = None" by simp
  with r show ?thesis by (simp add: process_entry_def)
qed

lemma take_cap_nonempty: "take (nat (max 10 maxShows)) (m # ms) \<noteq> []"
proof -
  have "0 < nat (max 10 maxShows)" by simp
  then obtain k where "nat (max 10 maxShows) = Suc k" by (cases "nat (max 10 maxShows)") auto
  then show ?thesis by simp
qed

lemma take_cap_empty: "take (nat (max 10 maxShows)) xs = [] \<longleftrightarrow> xs = []"
  by (cases xs) (simp_all add: take_cap_nonempty)

lemma try_body_fatal_iff:
  "try_body w maxShows cache name st = Inl e \<longleftrightarrow>
     (userId_result w (trim name) = Inl e
      \<or> (\<exists>uid. userId_result w (trim name) = Inr uid \<and> anime_result w uid = Inl e)
      \<or> (\<exists>uid. userId_result w (trim name) = Inr uid \<and> anime_result w uid = Inr []
            \<and> e = Error no_anime_msg))"
  by (auto simp: try_body_def Let_def take_cap_empty split: sum.splits)

lemma build_fatal:
  "try_body w maxShows (cache_state st) name
      (st\<lparr>error_text := [], loading := True, showAnswer := False,
          idsRef := set (map card_id (cards st))\<rparr>) = Inl e \<Longrightarrow>
   buildDeckFromAniList w maxShows st name
     = st\<lparr>cards := [], idsRef := set (map card_id (cards st)), error_text := error_message e,
          loading := False, showAnswer := False\<rparr>"
  by (simp add: buildDeckFromAniList_def Let_def)

lemma demo_bad_show:
  "fst (resolve_entry Map.empty demo_world bad_show)
     = Inl (Error (''404 Not Found '' @ em_dash @ '' no''))"
  by (simp add: resolve_entry_def getOpeningsForAniListId_def net_of_def titles_of_def
      bad_show_def demo_world_def fetchByUrl_def fetchJSON_def fetchJSON_from.simps not_found_def
      ok_def retryable_def http_error_def String_nat.simps Let_def theme_url_def
      encodeURIComponent_def encode_char_def unreserved_def hex_digit_def)



lemma demo_lookup: "userId_result demo_world (trim ''alice'') = Inr 1"
  by (simp add: demo_world_def trim_def is_space_def)

lemma demo_lookup_bob:
  "userId_result demo_world (trim ''bob'') = Inl (Error ''Utilisateur AniList introuvable'')"
  by (simp add: demo_world_def trim_def is_space_def)

lemma demo_titan_show:
  "resolve_entry Map.empty demo_world titan_show
     = (Inr [demo_op1], Some [''16498'' \<mapsto> [demo_op1]],
        [(theme_url ''Attack on Titan'', [Fetch (theme_url ''Attack on Titan'')])])"
  by (simp add: resolve_entry_def getOpeningsForAniListId_def net_of_def titles_of_def
      titan_show_def demo_world_def demo_net_def fetchByUrl_def fetchJSON_def fetchJSON_from.simps
      ok_response_def ok_def Let_def String_int_def String_nat.simps
      openings_of_data_def dflt_def is_OP_def op1_theme_def ed1_theme_def toUpperCase_def
      upper_char_def opening_of_theme_def or_else_def demo_op1_def)

lemma demo_titan_card: "new_card titan_show demo_op1 = titan_card"
  by (simp add: new_card_def titan_show_def demo_op1_def titan_card_def entry_card_id_def
      number_or_1_def String_int_def String_nat.simps)

lemma demo_titan_id: "entry_card_id (anilistId titan_show) (number demo_op1) = ''16498::OP1''"
  by (simp add: titan_show_def demo_op1_def entry_card_id_def
      number_or_1_def String_int_def String_nat.simps)

lemma dedupe_single: "dedupeById [c] = [c]"
  by (simp add: dedupeById_def)

text \<open>
  C1 (as amended).  The outer \<^verbatim>\<open>try\<close> block of \<^verbatim>\<open>buildDeckFromAniList\<close> throws
  exactly when the user lookup throws, the list fetch throws, or the list is empty, all
  of which happen before the first entry is processed.  The run then ends in the state it
  started from, but for this: the error text is the text of the cause (or "Error" when
  that is empty), the flags \<open>loading\<close> and \<open>showAnswer\<close> are off, the set of ids is
  rebuilt from the cards, and the handler has replaced the card collection by the empty
  list.  The progress counters and the cache are as before the run.
\<close>

theorem C1_fatal_error:
  "(try_body w maxShows cache name s0 = Inl e \<longleftrightarrow>
      (userId_result w (trim name) = Inl e
       \<or> (\<exists>uid. userId_result w (trim name) = Inr uid \<and> anime_result w uid = Inl e)
       \<or> (\<exists>uid. userId_result w (trim name) = Inr uid \<and> anime_result w uid = Inr []
             \<and> e = Error no_anime_msg)))
   \<and> (try_body w maxShows (cache_state st) name
         (st\<lparr>error_text := [], loading := True, showAnswer := False,
             idsRef := set (map card_id (cards st))\<rparr>) = Inl e \<longrightarrow>
       buildDeckFromAniList w maxShows st name
         = st\<lparr>cards := [], idsRef := set (map card_id (cards st)),
              error_text := error_message e, loading := False, showAnswer := False\<rparr>)"
  using try_body_fatal_iff [of w maxShows cache name s0 e] build_fatal [of w maxShows st name e]
  by blast

text \<open>
  Witness of C1: a deck of one card, and an import for a user that does not exist.
\<close>

theorem C1_fatal_error_witness:
  "userId_result demo_world (trim ''bob'') = Inl (Error ''Utilisateur AniList introuvable'')
   \<and> buildDeckFromAniList demo_world 250 deck_state ''bob''
       = deck_state\<lparr>cards := [], idsRef := {''16498::OP1''},
            error_text := ''Utilisateur AniList introuvable''\<rparr>"
proof -
  let ?e = "Error ''Utilisateur AniList introuvable''"
  let ?s0 = "deck_state\<lparr>error_text := [], loading := True, showAnswer := False,
             idsRef := set (map card_id (cards deck_state))\<rparr>"
  note m = C1_fatal_error [where w = demo_world and maxShows = 250
      and cache = "cache_state deck_state" and name = "''bob''" and ?s0.0 = ?s0 and e = ?e
      and st = deck_state]
  from m demo_lookup_bob have t: "try_body demo_world 250 (cache_state deck_state) ''bob'' ?s0
      = Inl ?e"
    by blast
  from m t have r: "buildDeckFromAniList demo_world 250 deck_state ''bob''
      = deck_state\<lparr>cards := [], idsRef := set (map card_id (cards deck_state)),
           error_text := error_message ?e, loading := False, showAnswer := False\<rparr>"
    by blast
  have s: "deck_state\<lparr>cards := [], idsRef := set (map card_id (cards deck_state)),
           error_text := error_message ?e, loading := False, showAnswer := False\<rparr>
       = deck_state\<lparr>cards := [], idsRef := {''16498::OP1''},
            error_text := ''Utilisateur AniList introuvable''\<rparr>"
    by (simp add: deck_state_def fresh_state_def titan_card_def)
  show ?thesis using demo_lookup_bob r s by simp
qed

text \<open>
  Counterexample to C1 as stated: the same run.  The card that was in the collection
  before the failing run is not in it afterwards.
\<close>

theorem C1_counterexample:
  "cards (buildDeckFromAniList demo_world 250 deck_state ''bob'') \<noteq> cards deck_state"
  by (simp add: buildDeckFromAniList_def try_body_def demo_lookup_bob Let_def deck_state_def
      fresh_state_def)

section \<open>\<^verbatim>\<open>dedupeById\<close>: distinct ids, same ids, idempotence\<close>

lemma keyed_update: "keyed al \<Longrightarrow> keyed (AList.update (card_id c) c al)"
  by (induction al) (auto simp: keyed_def)

lemma keyed_foldl:
  "keyed al \<Longrightarrow> keyed (foldl (\<lambda>m c. AList.update (card_id c) c m) al xs)"
  by (induction xs arbitrary: al) (simp_all add: keyed_update)

lemma distinct_foldl:
  "distinct (map fst al) \<Longrightarrow>
   distinct (map fst (foldl (\<lambda>m c. AList.update (card_id c) c m) al xs))"
  by (induction xs arbitrary: al) (simp_all add: distinct_update)

lemma keys_foldl:
  "fst ` set (foldl (\<lambda>m c. AList.update (card_id c) c m) al xs)
     = fst ` set al \<union> card_id ` set xs"
  by (induction xs arbitrary: al) (auto simp: dom_update)

lemma keyed_ids: "keyed al \<Longrightarrow> map card_id (map snd al) = map fst al"
  by (induction al) (auto simp: keyed_def)

lemma dedupe_ids:
  "map card_id (dedupeById xs) = map fst (foldl (\<lambda>m c. AList.update (card_id c) c m) [] xs)"
proof -
  have "keyed (foldl (\<lambda>m c. AList.update (card_id c) c m) [] xs)"
    by (rule keyed_foldl) (simp add: keyed_def)
  then have "map card_id (map snd (foldl (\<lambda>m c. AList.update (card_id c) c m) [] xs))
      = map fst (foldl (\<lambda>m c. AList.update (card_id c) c m) [] xs)"
    by (rule keyed_ids)
  then show ?thesis by (simp only: dedupeById_def)
qed

lemma dedupe_distinct: "distinct (map card_id (dedupeById xs))"
  by (simp add: dedupe_ids distinct_foldl)

lemma dedupe_set_ids: "set (map card_id (dedupeById xs)) = card_id ` set xs"
proof -
  have "set (map card_id (dedupeById xs))
        = fst ` set (foldl (\<lambda>m c. AList.update (card_id c) c m) [] xs)"
    by (simp add: dedupe_ids)
  then show ?thesis by (simp add: keys_foldl)
qed

lemma dedupe_length: "length (dedupeById xs) = card (card_id ` set xs)"
proof -
  have "length (dedupeById xs) = length (map card_id (dedupeById xs))" by simp
  also have "\<dots> = card (set (map card_id (dedupeById xs)))"
    using dedupe_distinct [of xs] by (simp only: distinct_card)
  finally show ?thesis by (simp only: dedupe_set_ids)
qed

lemma update_fresh: "k \<notin> fst ` set al \<Longrightarrow> AList.update k v al = al @ [(k, v)]"
  by (induction al) auto

lemma foldl_fresh:
  "distinct (map card_id xs) \<Longrightarrow> card_id ` set xs \<inter> fst ` set al = {} \<Longrightarrow>
   foldl (\<lambda>m c. AList.update (card_id c) c m) al xs = al @ map (\<lambda>c. (card_id c, c)) xs"
proof (induction xs arbitrary: al)
  case Nil
  show ?case by simp
next
  case (Cons x xs)
  have fresh: "card_id x \<notin> fst ` set al" using Cons.prems(2) by auto
  have step: "AList.update (card_id x) x al = al @ [(card_id x, x)]"
    using fresh by (rule update_fresh)
  have d: "distinct (map card_id xs)" using Cons.prems(1) by simp
  have disj: "card_id ` set xs \<inter> fst ` set (al @ [(card_id x, x)]) = {}"
    using Cons.prems by auto
  show ?case using Cons.IH [OF d disj] by (simp add: step)
qed

lemma dedupe_of_distinct: "distinct (map card_id xs) \<Longrightarrow> dedupeById xs = xs"
  by (simp add: dedupeById_def foldl_fresh comp_def)

lemma dedupe_idem: "dedupeById (dedupeById xs) = dedupeById xs"
  by (rule dedupe_of_distinct) (rule dedupe_distinct)

lemma dedupe_slice_idem:
  assumes same: "card_id ` set N2 = card_id ` set N1"
  shows "length (take k (dedupeById (take k (dedupeById (c0 @ N1)) @ N2)))
         = length (take k (dedupeById (c0 @ N1)))"
proof -
  let ?A = "dedupeById (c0 @ N1)"
  let ?C = "take k ?A"
  let ?B = "dedupeById (?C @ N2)"
  have dA: "distinct (map card_id ?A)" by (rule dedupe_distinct)
  have lenB: "length ?B = card (card_id ` set ?C \<union> card_id ` set N2)"
    by (simp add: dedupe_length image_Un)
  show ?thesis
  proof (cases "length ?A \<le> k")
    case True
    then have C: "?C = ?A" by simp
    have "card_id ` set ?A = card_id ` set c0 \<union> card_id ` set N1"
      using dedupe_set_ids [of "c0 @ N1"] by (simp add: image_Un)
    then have "card_id ` set ?C \<union> card_id ` set N2 = card_id ` set ?A"
      using same C by auto
    then have "length ?B = card (card_id ` set ?A)" using lenB by simp
    also have "\<dots> = length ?A"
      using dedupe_length [of ?A] by (simp add: dedupe_idem)
    finally show ?thesis using C by simp
  next
    case False
    then have lC: "length ?C = k" by simp
    have "distinct (map card_id ?C)"
      using dA by (simp add: take_map [symmetric])
    then have "card (card_id ` set ?C) = k"
      using lC distinct_card [of "map card_id ?C"] by simp
    moreover have "card (card_id ` set ?C) \<le> card (card_id ` set ?C \<union> card_id ` set N2)"
      by (rule card_mono) simp_all
    ultimately have "k \<le> length ?B" using lenB by simp
    then show ?thesis using lC by simp
  qed
qed

section \<open>Import run: a second run adds nothing\<close>

lemma stage_ops_ids:
  "fst (stage_ops m ops (ids, nc, k)) = ids \<union> op_ids m ops"
  by (induction ops arbitrary: ids nc k) (auto simp: op_ids_def)

lemma stage_ops_keeps:
  "set nc \<subseteq> set (fst (snd (stage_ops m ops (ids, nc, k))))"
proof (induction ops arbitrary: ids nc k)
  case Nil
  show ?case by simp
next
  case (Cons op ops)
  show ?case
    using Cons.IH [of "nc @ [new_card m op]"] Cons.IH [of nc] by auto
qed

lemma new_card_id: "card_id (new_card m op) = entry_card_id (anilistId m) (number op)"
  by (simp add: new_card_def)

lemma union_insert_cancel:
  assumes "A \<union> insert x J = insert x N \<union> F" and "x \<in> A" and "x \<in> F"
  shows "A \<union> J = N \<union> F"
proof (rule set_eqI)
  fix y
  have "y \<in> A \<union> insert x J \<longleftrightarrow> y \<in> insert x N \<union> F" using assms(1) by simp
  then show "y \<in> A \<union> J \<longleftrightarrow> y \<in> N \<union> F" using assms(2,3) by auto
qed

lemma stage_ops_cards:
  "card_id ` set (fst (snd (stage_ops m ops (ids, nc, k)))) \<union> ids
     = card_id ` set nc \<union> fst (stage_ops m ops (ids, nc, k))"
proof (induction ops arbitrary: ids nc k)
  case Nil
  show ?case by auto
next
  case (Cons op ops)
  let ?x = "entry_card_id (anilistId m) (number op)"
  show ?case
  proof (cases "?x \<in> ids")
    case True
    then show ?thesis using Cons.IH [of ids nc k] by simp
  next
    case False
    let ?r = "stage_ops m ops (insert ?x ids, nc @ [new_card m op], k + 1)"
    have ih: "card_id ` set (fst (snd ?r)) \<union> insert ?x ids
        = card_id ` set (nc @ [new_card m op]) \<union> fst ?r"
      by (rule Cons.IH)
    have "new_card m op \<in> set (fst (snd ?r))"
      using stage_ops_keeps [of "nc @ [new_card m op]" m ops "insert ?x ids" "k + 1"] by auto
    then have x1: "?x \<in> card_id ` set (fst (snd ?r))"
      using new_card_id [of m op] by (metis imageI)
    have x2: "?x \<in> fst ?r" by (simp add: stage_ops_ids)
    have ih': "card_id ` set (fst (snd ?r)) \<union> insert ?x ids
        = insert ?x (card_id ` set nc) \<union> fst ?r"
      using ih by (simp add: new_card_id)
    have "card_id ` set (fst (snd ?r)) \<union> ids = card_id ` set nc \<union> fst ?r"
      using ih' x1 x2 by (rule union_insert_cancel)
    with False show ?thesis by simp
  qed
qed

lemma stage_ops_known:
  "op_ids m ops \<subseteq> ids \<Longrightarrow> stage_ops m ops (ids, nc, k) = (ids, nc, k)"
  by (induction ops arbitrary: ids nc k) (auto simp: op_ids_def)

lemma stage_ops_form:
  "\<forall>c \<in> set (fst (snd (stage_ops m ops (ids, nc, k)))).
     c \<in> set nc \<or> (\<exists>op \<in> set ops. c = new_card m op)"
proof (induction ops arbitrary: ids nc k)
  case Nil
  show ?case by simp
next
  case (Cons op ops)
  show ?case
    using Cons.IH [of "insert (entry_card_id (anilistId m) (number op)) ids"
        "nc @ [new_card m op]" "k + 1"] Cons.IH [of ids nc k]
    by auto
qed

lemma resolver_same_entry:
  "cache2 (String_int i) = cache (String_int i) \<Longrightarrow>
   fst (getOpeningsForAniListId cache2 n i ts) = fst (getOpeningsForAniListId cache n i ts)"
  by (simp add: resolver_refines resolve_spec_def split: option.splits prod.splits sum.splits)

lemma resolver_hit: "cache (String_int i) = Some ops \<Longrightarrow>
   fst (getOpeningsForAniListId cache n i ts) = Inr ops"
  by (simp add: getOpeningsForAniListId_def)

lemma resolver_setCache:
  "fst (snd (getOpeningsForAniListId cache n i ts)) = Some c \<Longrightarrow>
   cache (String_int i) = None
   \<and> (\<exists>ops. fst (getOpeningsForAniListId cache n i ts) = Inr ops
          \<and> c = cache(String_int i \<mapsto> ops))"
  by (auto simp: resolver_refines resolve_spec_def split: option.splits prod.splits sum.splits)

lemma process_entry_proj:
  "cards (process_entry cache w st m)
     = (case fst (resolve_entry cache w m) of
          Inl e \<Rightarrow> cards st
        | Inr ops \<Rightarrow>
            (if fst (snd (stage_ops m ops (idsRef st, [], 0))) \<noteq> []
             then dedupeById (cards st @ fst (snd (stage_ops m ops (idsRef st, [], 0))))
             else cards st))
   \<and> idsRef (process_entry cache w st m)
     = (case fst (resolve_entry cache w m) of
          Inl e \<Rightarrow> idsRef st
        | Inr ops \<Rightarrow> fst (stage_ops m ops (idsRef st, [], 0)))
   \<and> cache_state (process_entry cache w st m)
     = (case fst (snd (resolve_entry cache w m)) of
          None \<Rightarrow> cache_state st
        | Some c \<Rightarrow> c)
   \<and> error_text (process_entry cache w st m) = error_text st"
proof -
  obtain res sc calls where r: "resolve_entry cache w m = (res, sc, calls)"
    by (cases "resolve_entry cache w m") auto
  show ?thesis
  proof (cases res)
    case (Inl e)
    then show ?thesis by (cases sc) (simp_all add: process_entry_def r)
  next
    case (Inr ops)
    obtain ids nc k where s: "stage_ops m ops (idsRef st, [], 0) = (ids, nc, k)"
      by (cases "stage_ops m ops (idsRef st, [], 0)") auto
    show ?thesis
      by (cases sc) (simp_all add: process_entry_def r Inr s Let_def)
  qed
qed

lemma process_entry_cards:
  "cards (process_entry cache w st m)
     = (case fst (resolve_entry cache w m) of
          Inl e \<Rightarrow> cards st
        | Inr ops \<Rightarrow>
            (if fst (snd (stage_ops m ops (idsRef st, [], 0))) \<noteq> []
             then dedupeById (cards st @ fst (snd (stage_ops m ops (idsRef st, [], 0))))
             else cards st))"
  using process_entry_proj [of cache w st m] by blast

lemma process_entry_idsRef:
  "idsRef (process_entry cache w st m)
     = (case fst (resolve_entry cache w m) of
          Inl e \<Rightarrow> idsRef st
        | Inr ops \<Rightarrow> fst (stage_ops m ops (idsRef st, [], 0)))"
  using process_entry_proj [of cache w st m] by blast

lemma process_entry_cache:
  "cache_state (process_entry cache w st m)
     = (case fst (snd (resolve_entry cache w m)) of
          None \<Rightarrow> cache_state st
        | Some c \<Rightarrow> c)"
  using process_entry_proj [of cache w st m] by blast

lemma process_entry_error_text:
  "error_text (process_entry cache w st m) = error_text st"
  using process_entry_proj [of cache w st m] by blast

lemma process_entry_synced:
  assumes "ids_synced st"
  shows "ids_synced (process_entry cache w st m)
         \<and> idsRef st \<subseteq> idsRef (process_entry cache w st m)
         \<and> (\<forall>ops. fst (resolve_entry cache w m) = Inr ops \<longrightarrow>
               op_ids m ops \<subseteq> idsRef (process_entry cache w st m))"
proof (cases "fst (resolve_entry cache w m)")
  case (Inl e)
  have "cards (process_entry cache w st m) = cards st"
    "idsRef (process_entry cache w st m) = idsRef st"
    by (simp_all add: process_entry_cards process_entry_idsRef Inl)
  with assms Inl show ?thesis by (simp add: ids_synced_def)
next
  case (Inr ops)
  let ?r = "stage_ops m ops (idsRef st, [], 0)"
  let ?nc = "fst (snd ?r)"
  have i: "fst ?r = idsRef st \<union> op_ids m ops" by (rule stage_ops_ids)
  have c: "card_id ` set ?nc \<union> idsRef st = fst ?r"
    using stage_ops_cards [of m ops "idsRef st" "[]" 0] by simp
  have s: "card_id ` set (cards st) = idsRef st" using assms by (simp add: ids_synced_def)
  have ids': "idsRef (process_entry cache w st m) = fst ?r"
    by (simp add: process_entry_idsRef Inr)
  have "card_id ` set (cards (process_entry cache w st m)) = fst ?r"
  proof (cases "?nc = []")
    case True
    then have "cards (process_entry cache w st m) = cards st"
      by (simp add: process_entry_cards Inr)
    moreover have "idsRef st = fst ?r" using c True by simp
    ultimately show ?thesis using s by simp
  next
    case False
    then have "cards (process_entry cache w st m) = dedupeById (cards st @ ?nc)"
      by (simp add: process_entry_cards Inr)
    then have "card_id ` set (cards (process_entry cache w st m))
        = card_id ` set (cards st @ ?nc)"
      using dedupe_set_ids [of "cards st @ ?nc"] by simp
    also have "\<dots> = idsRef st \<union> card_id ` set ?nc"
      using s by (simp add: image_Un)
    also have "\<dots> = fst ?r" using c by (simp only: Un_commute)
    finally show ?thesis .
  qed
  then have a: "ids_synced (process_entry cache w st m)"
    unfolding ids_synced_def ids' by simp
  have b: "idsRef st \<subseteq> idsRef (process_entry cache w st m)"
    unfolding ids' i by simp
  have d: "\<forall>ops'. fst (resolve_entry cache w m) = Inr ops' \<longrightarrow>
             op_ids m ops' \<subseteq> idsRef (process_entry cache w st m)"
    unfolding ids' i Inr by simp
  show ?thesis using a b d by blast
qed

lemma process_entry_known:
  assumes "\<forall>ops. fst (resolve_entry cache w m) = Inr ops \<longrightarrow> op_ids m ops \<subseteq> idsRef st"
  shows "cards (process_entry cache w st m) = cards st
         \<and> idsRef (process_entry cache w st m) = idsRef st"
proof (cases "fst (resolve_entry cache w m)")
  case (Inl e)
  then show ?thesis by (simp add: process_entry_cards process_entry_idsRef)
next
  case (Inr ops)
  with assms have "op_ids m ops \<subseteq> idsRef st" by simp
  then have "stage_ops m ops (idsRef st, [], 0) = (idsRef st, [], 0)"
    by (rule stage_ops_known)
  then show ?thesis by (simp add: process_entry_cards process_entry_idsRef Inr)
qed

lemma process_entry_cache_cases:
  "cache_state (process_entry cache w st m) = cache_state st
   \<or> (\<exists>ops. cache (entry_key m) = None \<and> fst (resolve_entry cache w m) = Inr ops
          \<and> cache_state (process_entry cache w st m) = cache(entry_key m \<mapsto> ops))"
proof (cases "fst (snd (resolve_entry cache w m))")
  case None
  then show ?thesis by (simp add: process_entry_cache)
next
  case (Some c)
  then have "cache (entry_key m) = None
     \<and> (\<exists>ops. fst (resolve_entry cache w m) = Inr ops \<and> c = cache(entry_key m \<mapsto> ops))"
    unfolding resolve_entry_def entry_key_def by (rule resolver_setCache)
  with Some show ?thesis by (auto simp: process_entry_cache)
qed

lemma import_loop_synced:
  "ids_synced st \<Longrightarrow>
   ids_synced (import_loop cache w i ms st) \<and> idsRef st \<subseteq> idsRef (import_loop cache w i ms st)"
proof (induction ms arbitrary: i st)
  case Nil
  then show ?case by simp
next
  case (Cons m ms)
  show ?case
  proof (cases "cancelled w i")
    case True
    with Cons.prems show ?thesis by simp
  next
    case False
    have p: "ids_synced (process_entry cache w st m)"
      "idsRef st \<subseteq> idsRef (process_entry cache w st m)"
      using process_entry_synced [OF Cons.prems, of cache w m] by simp_all
    from Cons.IH [OF p(1), of "Suc i"] p(2) False show ?thesis by auto
  qed
qed

lemma import_loop_covers:
  assumes "\<forall>i. \<not> cancelled w i"
  shows "ids_synced st \<Longrightarrow> m \<in> set ms \<Longrightarrow> fst (resolve_entry cache w m) = Inr ops \<Longrightarrow>
         op_ids m ops \<subseteq> idsRef (import_loop cache w i ms st)"
proof (induction ms arbitrary: i st)
  case Nil
  then show ?case by simp
next
  case (Cons x xs)
  have nc: "\<not> cancelled w i" using assms by simp
  have p: "ids_synced (process_entry cache w st x)"
    using process_entry_synced [OF Cons.prems(1), of cache w x] by simp
  show ?case
  proof (cases "m = x")
    case True
    have "op_ids m ops \<subseteq> idsRef (process_entry cache w st x)"
      using process_entry_synced [OF Cons.prems(1), of cache w x] Cons.prems(3) True by simp
    also have "\<dots> \<subseteq> idsRef (import_loop cache w (Suc i) xs (process_entry cache w st x))"
      using import_loop_synced [OF p] by simp
    finally show ?thesis using nc by simp
  next
    case False
    then have "m \<in> set xs" using Cons.prems(2) by simp
    then show ?thesis using Cons.IH [OF p _ Cons.prems(3), of "Suc i"] nc by simp
  qed
qed

lemma import_loop_known:
  "\<forall>m \<in> set ms. \<forall>ops. fst (resolve_entry cache w m) = Inr ops \<longrightarrow> op_ids m ops \<subseteq> idsRef st \<Longrightarrow>
   cards (import_loop cache w i ms st) = cards st"
proof (induction ms arbitrary: i st)
  case Nil
  show ?case by simp
next
  case (Cons m ms)
  have k: "cards (process_entry cache w st m) = cards st"
    "idsRef (process_entry cache w st m) = idsRef st"
    using process_entry_known [of cache w m st] Cons.prems by simp_all
  have "cards (import_loop cache w (Suc i) ms (process_entry cache w st m))
        = cards (process_entry cache w st m)"
    by (rule Cons.IH) (use Cons.prems k in simp)
  then show ?case using k by simp
qed

lemma import_loop_cache:
  "cache_state (import_loop cache w i ms st) = cache_state st
   \<or> (\<exists>m \<in> set ms. \<exists>ops. cache (entry_key m) = None \<and> fst (resolve_entry cache w m) = Inr ops
          \<and> cache_state (import_loop cache w i ms st) = cache(entry_key m \<mapsto> ops))"
proof (induction ms arbitrary: i st)
  case Nil
  show ?case by simp
next
  case (Cons x xs)
  show ?case
  proof (cases "cancelled w i")
    case True
    then show ?thesis by simp
  next
    case False
    from Cons.IH [of "Suc i" "process_entry cache w st x"]
      process_entry_cache_cases [of cache w st x] False
    show ?thesis by auto
  qed
qed

lemma import_loop_error_text:
  "error_text (import_loop cache w i ms st) = error_text st"
  by (induction ms arbitrary: i st) (simp_all add: process_entry_error_text)

lemma op_ids_key: "entry_key m = entry_key m' \<Longrightarrow> op_ids m ops = op_ids m' ops"
  by (simp add: op_ids_def entry_card_id_def entry_key_def)

lemma fetchByUrl_answers:
  "server n2 = server n \<Longrightarrow> fst (fetchByUrl n2 url) = fst (fetchByUrl n url)"
  by (simp add: fetchByUrl_def fetchJSON_closed split: sum.splits)

lemma try_variants_answers:
  "server n2 = server n \<Longrightarrow> fst (try_variants n2 ts) = fst (try_variants n ts)"
proof (induction ts)
  case Nil
  show ?case by simp
next
  case (Cons t ts)
  obtain r tr where a: "fetchByUrl n (theme_url t) = (r, tr)"
    by (cases "fetchByUrl n (theme_url t)") auto
  obtain r2 tr2 where b: "fetchByUrl n2 (theme_url t) = (r2, tr2)"
    by (cases "fetchByUrl n2 (theme_url t)") auto
  have "r2 = r" using fetchByUrl_answers [OF Cons.prems, of "theme_url t"] a b by simp
  then show ?case
    using Cons.IH [OF Cons.prems] a b
    by (cases r) (auto split: prod.splits)
qed

lemma resolve_entry_answers:
  "server w2 = server w \<Longrightarrow> fst (resolve_entry cache w2 m) = fst (resolve_entry cache w m)"
proof -
  assume s: "server w2 = server w"
  have n: "server (net_of w2) = server (net_of w)" using s by (simp add: net_of_def)
  show ?thesis
    using try_variants_answers [OF n, of "variants (titles_of m)"]
    by (auto simp: resolve_entry_def resolver_refines resolve_spec_def
        split: option.splits prod.splits sum.splits)
qed

lemma resolve_entry_same:
  "cache2 (entry_key m) = cache (entry_key m) \<Longrightarrow>
   fst (resolve_entry cache2 w m) = fst (resolve_entry cache w m)"
  unfolding resolve_entry_def entry_key_def by (rule resolver_same_entry)

lemma resolve_entry_hit:
  "cache (entry_key m) = Some ops \<Longrightarrow> fst (resolve_entry cache w m) = Inr ops"
  unfolding resolve_entry_def entry_key_def by (rule resolver_hit)

lemma second_pass_known:
  assumes nc: "\<forall>i. \<not> cancelled w i"
    and sy: "ids_synced st1"
    and ca: "cache_state st1 = cache"
    and m: "m \<in> set ms"
    and r: "fst (resolve_entry (cache_state (import_loop cache w i ms st1)) w m) = Inr ops"
  shows "op_ids m ops \<subseteq> idsRef (import_loop cache w i ms st1)"
proof -
  let ?st2 = "import_loop cache w i ms st1"
  let ?cache2 = "cache_state ?st2"
  note cov = import_loop_covers [OF nc sy]
  have "?cache2 = cache
     \<or> (\<exists>m' \<in> set ms. \<exists>ops'. cache (entry_key m') = None
            \<and> fst (resolve_entry cache w m') = Inr ops'
            \<and> ?cache2 = cache(entry_key m' \<mapsto> ops'))"
    using import_loop_cache [of cache w i ms st1] by (simp only: ca)
  then show ?thesis
  proof (elim disjE bexE exE conjE)
    assume same: "?cache2 = cache"
    have "fst (resolve_entry cache w m) = Inr ops" using r by (simp only: same)
    then show ?thesis by (rule cov [OF m])
  next
    fix m' ops'
    assume m': "m' \<in> set ms" and r': "fst (resolve_entry cache w m') = Inr ops'"
      and c2: "?cache2 = cache(entry_key m' \<mapsto> ops')"
    have r2: "fst (resolve_entry (cache(entry_key m' \<mapsto> ops')) w m) = Inr ops"
      using r by (simp only: c2)
    show ?thesis
    proof (cases "entry_key m = entry_key m'")
      case True
      have "(cache(entry_key m' \<mapsto> ops')) (entry_key m) = Some ops'" using True by simp
      then have "fst (resolve_entry (cache(entry_key m' \<mapsto> ops')) w m) = Inr ops'"
        by (rule resolve_entry_hit)
      with r2 have "ops = ops'" by simp
      then have "op_ids m ops = op_ids m' ops'" using op_ids_key [OF True, of ops'] by simp
      then show ?thesis using cov [OF m' r'] by simp
    next
      case False
      have "(cache(entry_key m' \<mapsto> ops')) (entry_key m) = cache (entry_key m)"
        using False by simp
      then have "fst (resolve_entry (cache(entry_key m' \<mapsto> ops')) w m)
          = fst (resolve_entry cache w m)"
        by (rule resolve_entry_same)
      with r2 have "fst (resolve_entry cache w m) = Inr ops" by simp
      then show ?thesis by (rule cov [OF m])
    qed
  qed
qed

lemma try_body_run:
  assumes "userId_result w (trim name) = Inr uid" and "anime_result w uid = Inr all"
    and "take (nat (max 10 maxShows)) all = ms" and "ms \<noteq> []"
  shows "try_body w maxShows cache name st
            = Inr ((import_loop cache w 0 ms (list_state st ms))
                 \<lparr>cards := dedupeById (cards (import_loop cache w 0 ms (list_state st ms))),
                  error_text :=
                    (if dedupeById (cards (import_loop cache w 0 ms (list_state st ms))) = []
                     then no_op_msg
                     else error_text (import_loop cache w 0 ms (list_state st ms)))\<rparr>)"
  using assms by (auto simp: try_body_def Let_def list_state_def)

lemma build_run:
  assumes "userId_result w (trim name) = Inr uid" and "anime_result w uid = Inr all"
    and "take (nat (max 10 maxShows)) all = ms" and "ms \<noteq> []"
  shows "cards (buildDeckFromAniList w maxShows st name)
           = dedupeById (cards (import_loop (cache_state st) w 0 ms
                                  (list_state (start_state st) ms)))
         \<and> cache_state (buildDeckFromAniList w maxShows st name)
           = cache_state (import_loop (cache_state st) w 0 ms (list_state (start_state st) ms))"
  using try_body_run [OF assms, of "cache_state st" "start_state st"]
  by (simp add: buildDeckFromAniList_def Let_def start_state_def)

lemma build_idem:
  assumes nc: "\<forall>i. \<not> cancelled w i"
    and sv: "server w2 = server w"
    and us: "userId_result w2 = userId_result w"
    and an: "anime_result w2 = anime_result w"
  shows "cards (buildDeckFromAniList w2 maxShows
                  (buildDeckFromAniList w maxShows st name) name)
         = cards (buildDeckFromAniList w maxShows st name)"
proof (cases "try_body w maxShows (cache_state st) name (start_state st)")
  case (Inl e)
  let ?R1 = "buildDeckFromAniList w maxShows st name"
  have c1: "cards ?R1 = []"
    using Inl by (simp add: buildDeckFromAniList_def Let_def start_state_def)
  have "try_body w2 maxShows (cache_state ?R1) name (start_state ?R1) = Inl e"
    using Inl by (simp add: try_body_fatal_iff us an)
  then have "cards (buildDeckFromAniList w2 maxShows ?R1 name) = []"
    by (simp add: buildDeckFromAniList_def Let_def start_state_def)
  with c1 show ?thesis by simp
next
  case (Inr s)
  let ?R1 = "buildDeckFromAniList w maxShows st name"
  let ?cache = "cache_state st"
  from Inr obtain uid all where l: "userId_result w (trim name) = Inr uid"
      "anime_result w uid = Inr all" "take (nat (max 10 maxShows)) all \<noteq> []"
    by (auto simp: try_body_def Let_def split: sum.splits if_splits)
  define ms where "ms = take (nat (max 10 maxShows)) all"
  have ms: "take (nat (max 10 maxShows)) all = ms" "ms \<noteq> []"
    using l(3) by (simp_all add: ms_def)
  let ?st1 = "list_state (start_state st) ms"
  let ?st2 = "import_loop ?cache w 0 ms ?st1"
  have r1: "cards ?R1 = dedupeById (cards ?st2)" "cache_state ?R1 = cache_state ?st2"
    using build_run [OF l(1,2) ms, of st] by simp_all
  have l2: "userId_result w2 (trim name) = Inr uid" "anime_result w2 uid = Inr all"
    using l by (simp_all add: us an)
  let ?st1' = "list_state (start_state ?R1) ms"
  let ?st2' = "import_loop (cache_state ?R1) w2 0 ms ?st1'"
  have r2: "cards (buildDeckFromAniList w2 maxShows ?R1 name) = dedupeById (cards ?st2')"
    using build_run [OF l2 ms, of ?R1] by simp
  have sy: "ids_synced ?st1" by (simp add: ids_synced_def list_state_def start_state_def)
  have ca: "cache_state ?st1 = ?cache" by (simp add: list_state_def start_state_def)
  have sy2: "ids_synced ?st2" using import_loop_synced [OF sy] by simp
  have ids1': "idsRef ?st1' = idsRef ?st2"
    using sy2 dedupe_set_ids [of "cards ?st2"]
    by (simp add: list_state_def start_state_def r1 ids_synced_def)
  have "cards ?st2' = cards ?st1'"
  proof (rule import_loop_known, intro ballI allI impI)
    fix m ops
    assume m: "m \<in> set ms"
      and r: "fst (resolve_entry (cache_state ?R1) w2 m) = Inr ops"
    from r have "fst (resolve_entry (cache_state ?st2) w m) = Inr ops"
      by (simp add: resolve_entry_answers [OF sv] r1)
    then have "op_ids m ops \<subseteq> idsRef ?st2"
      using second_pass_known [OF nc sy ca m] by simp
    then show "op_ids m ops \<subseteq> idsRef ?st1'" by (simp only: ids1')
  qed
  then have "cards ?st2' = cards ?R1" by (simp add: list_state_def start_state_def)
  then have "cards (buildDeckFromAniList w2 maxShows ?R1 name) = dedupeById (cards ?R1)"
    using r2 by simp
  also have "\<dots> = cards ?R1" by (simp add: r1 dedupe_idem)
  finally show ?thesis .
qed

section \<open>Import run: the failure of one entry\<close>

lemma import_loop_append:
  "(\<forall>j < length pre. \<not> cancelled w (i + j)) \<Longrightarrow>
   import_loop cache w i (pre @ rest) st
     = import_loop cache w (i + length pre) rest (import_loop cache w i pre st)"
proof (induction pre arbitrary: i st)
  case Nil
  show ?case by simp
next
  case (Cons x xs)
  have nc: "\<not> cancelled w i" using Cons.prems by auto
  have "\<forall>j < length xs. \<not> cancelled w (Suc i + j)"
    using Cons.prems by auto
  from Cons.IH [OF this, of "process_entry cache w st x"] nc show ?case by simp
qed

lemma build_state:
  assumes "userId_result w (trim name) = Inr uid" and "anime_result w uid = Inr all"
    and "take (nat (max 10 maxShows)) all = ms" and "ms \<noteq> []"
  shows "buildDeckFromAniList w maxShows st name
           = (import_loop (cache_state st) w 0 ms (list_state (start_state st) ms))
               \<lparr>cards := dedupeById (cards (import_loop (cache_state st) w 0 ms
                                              (list_state (start_state st) ms))),
                error_text :=
                  (if dedupeById (cards (import_loop (cache_state st) w 0 ms
                                           (list_state (start_state st) ms))) = []
                   then no_op_msg else []),
                loading := False\<rparr>"
proof -
  have e: "error_text (import_loop (cache_state st) w 0 ms (list_state (start_state st) ms)) = []"
    by (simp add: import_loop_error_text list_state_def start_state_def)
  show ?thesis
    using try_body_run [OF assms, of "cache_state st" "start_state st"] e
    by (simp add: buildDeckFromAniList_def Let_def start_state_def)
qed

lemma run_past_failure:
  assumes f: "fst (resolve_entry cache w m) = Inl e"
    and nc: "\<forall>j \<le> length pre. \<not> cancelled w j"
  shows "import_loop cache w 0 (pre @ m # ms) st
     = import_loop cache w (Suc (length pre)) ms
         ((import_loop cache w 0 pre st)\<lparr>progress := (progress (import_loop cache w 0 pre st))
             \<lparr>processedShows := processedShows (progress (import_loop cache w 0 pre st)) + 1\<rparr>\<rparr>)"
proof -
  have a: "\<forall>j < length pre. \<not> cancelled w (0 + j)" using nc by simp
  have b: "\<not> cancelled w (length pre)" using nc by simp
  show ?thesis
    unfolding import_loop_append [OF a]
    using b by (simp add: process_entry_fail [OF f])
qed

text \<open>
  C9.  When the resolution of an entry throws, the body of the loop for that entry leaves
  the state as it is but for the counter of processed shows, which advances by one: no
  card is added, the set of ids, the count of added openings, the cache and the error text
  stay.  The loop goes on with the next entry.  And a whole run whose list holds such an
  entry \<open>m\<close>, after the entries \<open>pre\<close> and before the entries \<open>ms\<close>, and which is
  not cancelled before it gets past \<open>m\<close>, ends through its normal path in exactly this
  state: the loop has run over \<open>pre\<close>, the counter of processed shows has advanced by
  one for \<open>m\<close>, the loop has run over \<open>ms\<close> from there, and the run has deduplicated
  the cards once more and switched \<open>loading\<close> off.  The error text at the end is empty,
  or it is the message "no opening found" when the run ends without any card; it is never
  the text of the error the entry threw, and the handler of fatal errors, which empties
  the card collection, is not run.
\<close>

theorem C9_entry_failure:
  "fst (resolve_entry cache w m) = Inl e \<Longrightarrow>
     process_entry cache w st m
       = st\<lparr>progress := (progress st)\<lparr>processedShows := processedShows (progress st) + 1\<rparr>\<rparr>
     \<and> (\<not> cancelled w i \<longrightarrow>
          import_loop cache w i (m # ms) st
            = import_loop cache w (Suc i) ms
                (st\<lparr>progress := (progress st)\<lparr>processedShows :=
                                   processedShows (progress st) + 1\<rparr>\<rparr>))
     \<and> (cache = cache_state st0 \<and> userId_result w (trim name) = Inr uid
          \<and> anime_result w uid = Inr all
          \<and> take (nat (max 10 maxShows)) all = pre @ m # ms
          \<and> (\<forall>j \<le> length pre. \<not> cancelled w j) \<longrightarrow>
          (let s1 = import_loop cache w 0 pre (list_state (start_state st0) (pre @ m # ms));
               s2 = import_loop cache w (Suc (length pre)) ms
                      (s1\<lparr>progress := (progress s1)\<lparr>processedShows :=
                                         processedShows (progress s1) + 1\<rparr>\<rparr>)
           in buildDeckFromAniList w maxShows st0 name
                = s2\<lparr>cards := dedupeById (cards s2),
                     error_text := (if dedupeById (cards s2) = [] then no_op_msg else []),
                     loading := False\<rparr>))"
proof -
  assume f: "fst (resolve_entry cache w m) = Inl e"
  have a: "process_entry cache w st m
       = st\<lparr>progress := (progress st)\<lparr>processedShows := processedShows (progress st) + 1\<rparr>\<rparr>"
    using f by (rule process_entry_fail)
  have b: "\<not> cancelled w i \<longrightarrow>
          import_loop cache w i (m # ms) st
            = import_loop cache w (Suc i) ms
                (st\<lparr>progress := (progress st)\<lparr>processedShows :=
                                   processedShows (progress st) + 1\<rparr>\<rparr>)"
    by (simp add: a)
  have c: "cache = cache_state st0 \<and> userId_result w (trim name) = Inr uid
          \<and> anime_result w uid = Inr all
          \<and> take (nat (max 10 maxShows)) all = pre @ m # ms
          \<and> (\<forall>j \<le> length pre. \<not> cancelled w j) \<longrightarrow>
          (let s1 = import_loop cache w 0 pre (list_state (start_state st0) (pre @ m # ms));
               s2 = import_loop cache w (Suc (length pre)) ms
                      (s1\<lparr>progress := (progress s1)\<lparr>processedShows :=
                                         processedShows (progress s1) + 1\<rparr>\<rparr>)
           in buildDeckFromAniList w maxShows st0 name
                = s2\<lparr>cards := dedupeById (cards s2),
                     error_text := (if dedupeById (cards s2) = [] then no_op_msg else []),
                     loading := False\<rparr>)"
  proof (intro impI, elim conjE)
    assume ca: "cache = cache_state st0" and u: "userId_result w (trim name) = Inr uid"
      and l: "anime_result w uid = Inr all"
      and t: "take (nat (max 10 maxShows)) all = pre @ m # ms"
      and nc: "\<forall>j \<le> length pre. \<not> cancelled w j"
    have ne: "pre @ m # ms \<noteq> []" by simp
    show "let s1 = import_loop cache w 0 pre (list_state (start_state st0) (pre @ m # ms));
               s2 = import_loop cache w (Suc (length pre)) ms
                      (s1\<lparr>progress := (progress s1)\<lparr>processedShows :=
                                         processedShows (progress s1) + 1\<rparr>\<rparr>)
           in buildDeckFromAniList w maxShows st0 name
                = s2\<lparr>cards := dedupeById (cards s2),
                     error_text := (if dedupeById (cards s2) = [] then no_op_msg else []),
                     loading := False\<rparr>"
      unfolding Let_def build_state [OF u l t ne, of st0] ca [symmetric]
        run_past_failure [OF f nc]
      by (rule refl)
  qed
  show ?thesis using a b c by blast
qed

lemma demo_process_titan_state:
  "process_entry Map.empty demo_world
      (fresh_state\<lparr>loading := True,
         progress := \<lparr>totalShows = 2, processedShows = Suc 0, totalOps = 0\<rparr>\<rparr>)
      titan_show
     = \<lparr>cards = [titan_card], idsRef = {''16498::OP1''},
        progress = \<lparr>totalShows = 2, processedShows = 2, totalOps = 1\<rparr>,
        error_text = [], loading = True, showAnswer = False,
        cache_state = [''16498'' \<mapsto> [demo_op1]]\<rparr>"
  by (simp add: process_entry_def demo_titan_show demo_titan_id demo_titan_card dedupe_single
      bump_processed_def fresh_state_def Let_def)

text \<open>
  Witness of C9: the example list, whose first show makes the theme index answer 404.  The
  run counts both shows as processed, ends with the card of the second show and without
  an error text.
\<close>

theorem C9_entry_failure_witness:
  "fst (resolve_entry Map.empty demo_world bad_show)
     = Inl (Error (''404 Not Found '' @ em_dash @ '' no''))
   \<and> process_entry Map.empty demo_world fresh_state bad_show
       = fresh_state\<lparr>progress := \<lparr>totalShows = 0, processedShows = 1, totalOps = 0\<rparr>\<rparr>
   \<and> import_loop Map.empty demo_world 0 [bad_show, titan_show] fresh_state
       = import_loop Map.empty demo_world (Suc 0) [titan_show]
           (fresh_state\<lparr>progress := \<lparr>totalShows = 0, processedShows = 1, totalOps = 0\<rparr>\<rparr>)
   \<and> buildDeckFromAniList demo_world 250 fresh_state ''alice''
       = \<lparr>cards = [titan_card], idsRef = {''16498::OP1''},
          progress = \<lparr>totalShows = 2, processedShows = 2, totalOps = 1\<rparr>,
          error_text = [], loading = False, showAnswer = False,
          cache_state = [''16498'' \<mapsto> [demo_op1]]\<rparr>"
proof -
  let ?p = "fresh_state\<lparr>progress := (progress fresh_state)\<lparr>processedShows :=
                                   processedShows (progress fresh_state) + 1\<rparr>\<rparr>"
  have nc: "\<not> cancelled demo_world 0" by (simp add: demo_world_def)
  have l: "Map.empty = cache_state fresh_state
           \<and> userId_result demo_world (trim ''alice'') = Inr 1
           \<and> anime_result demo_world 1 = Inr [bad_show, titan_show]
           \<and> take (nat (max 10 250)) [bad_show, titan_show] = [] @ bad_show # [titan_show]
           \<and> (\<forall>j \<le> length ([] :: catalog_entry list). \<not> cancelled demo_world j)"
    using demo_lookup by (simp add: demo_world_def fresh_state_def)
  note m = C9_entry_failure [where cache = Map.empty and w = demo_world and m = bad_show
      and st = fresh_state and i = 0 and ms = "[titan_show]" and name = "''alice''" and uid = 1
      and all = "[bad_show, titan_show]" and pre = "[]"
      and maxShows = 250 and ?st0.0 = fresh_state, OF demo_bad_show]
  have p: "?p = fresh_state\<lparr>progress := \<lparr>totalShows = 0, processedShows = 1, totalOps = 0\<rparr>\<rparr>"
    by (simp add: fresh_state_def)
  from m have a: "process_entry Map.empty demo_world fresh_state bad_show = ?p" by blast
  from m nc have b: "import_loop Map.empty demo_world 0 (bad_show # [titan_show]) fresh_state
      = import_loop Map.empty demo_world (Suc 0) [titan_show] ?p"
    by blast
  from m l have c: "(let s1 = import_loop Map.empty demo_world 0 []
                       (list_state (start_state fresh_state) ([] @ bad_show # [titan_show]));
               s2 = import_loop Map.empty demo_world (Suc (length ([] :: catalog_entry list)))
                      [titan_show]
                      (s1\<lparr>progress := (progress s1)\<lparr>processedShows :=
                                         processedShows (progress s1) + 1\<rparr>\<rparr>)
           in buildDeckFromAniList demo_world 250 fresh_state ''alice''
                = s2\<lparr>cards := dedupeById (cards s2),
                     error_text := (if dedupeById (cards s2) = [] then no_op_msg else []),
                     loading := False\<rparr>)"
    by blast
  have s1: "(list_state (start_state fresh_state) ([] @ bad_show # [titan_show]))
               \<lparr>progress := (progress (list_state (start_state fresh_state)
                                         ([] @ bad_show # [titan_show])))
                   \<lparr>processedShows := processedShows (progress (list_state (start_state fresh_state)
                                         ([] @ bad_show # [titan_show]))) + 1\<rparr>\<rparr>
      = fresh_state\<lparr>loading := True,
           progress := \<lparr>totalShows = 2, processedShows = 1, totalOps = 0\<rparr>\<rparr>"
    by (simp add: list_state_def start_state_def fresh_state_def)
  have nc1: "\<not> cancelled demo_world (Suc 0)" by (simp add: demo_world_def)
  from c have c': "buildDeckFromAniList demo_world 250 fresh_state ''alice''
       = \<lparr>cards = [titan_card], idsRef = {''16498::OP1''},
          progress = \<lparr>totalShows = 2, processedShows = 2, totalOps = 1\<rparr>,
          error_text = [], loading = False, showAnswer = False,
          cache_state = [''16498'' \<mapsto> [demo_op1]]\<rparr>"
    unfolding Let_def import_loop.simps(1) s1
    by (simp add: nc1 demo_process_titan_state dedupe_single)
  from a have a': "process_entry Map.empty demo_world fresh_state bad_show
      = fresh_state\<lparr>progress := \<lparr>totalShows = 0, processedShows = 1, totalOps = 0\<rparr>\<rparr>"
    by (simp only: p)
  from b have b': "import_loop Map.empty demo_world 0 [bad_show, titan_show] fresh_state
      = import_loop Map.empty demo_world (Suc 0) [titan_show]
          (fresh_state\<lparr>progress := \<lparr>totalShows = 0, processedShows = 1, totalOps = 0\<rparr>\<rparr>)"
    by (simp only: p)
  show ?thesis using demo_bad_show a' b' c' by blast
qed

section \<open>\<^verbatim>\<open>importAnilist\<close>: the ids of its cards, and a second run\<close>

lemma episode_card_id_time:
  "card_id (episode_card t1 m ep k g) = card_id (episode_card t2 m ep k g)"
  by (simp add: episode_card_def)

lemma fallback_card_id_time: "card_id (fallback_card t1 m g) = card_id (fallback_card t2 m g)"
  by (simp add: fallback_card_def)

lemma episodes_loop_ids:
  "ep_ids s1 = ep_ids s2 \<Longrightarrow>
   ep_ids (episodes_loop t1 m idx eps s1) = ep_ids (episodes_loop t2 m idx eps s2)"
proof (induction eps arbitrary: idx s1 s2)
  case Nil
  then show ?case by simp
next
  case (Cons ep eps)
  obtain g seen uniq cs1 where s1: "s1 = (g, seen, uniq, cs1)" by (cases s1) auto
  obtain g' seen' uniq' cs2 where s2: "s2 = (g', seen', uniq', cs2)" by (cases s2) auto
  from Cons.prems s1 s2 have eq: "g' = g" "seen' = seen" "uniq' = uniq"
    "map card_id cs1 = map card_id cs2"
    by (simp_all add: ep_ids_def)
  show ?case
    unfolding s1 s2 eq
    by (simp add: Let_def)
      (intro conjI impI Cons.IH; simp add: ep_ids_def eq episode_card_id_time [of t1 _ _ _ _ t2])
qed

lemma media_loop_ids:
  "media_ids s1 = media_ids s2 \<Longrightarrow>
   media_ids (media_loop t1 ms s1) = media_ids (media_loop t2 ms s2)"
proof (induction ms arbitrary: s1 s2)
  case Nil
  then show ?case by simp
next
  case (Cons m ms)
  obtain g seen cs1 where s1: "s1 = (g, seen, cs1)" by (cases s1) auto
  obtain g' seen' cs2 where s2: "s2 = (g', seen', cs2)" by (cases s2) auto
  from Cons.prems s1 s2 have eq: "g' = g" "seen' = seen" "map card_id cs1 = map card_id cs2"
    by (simp_all add: media_ids_def)
  let ?eps = "take MAX_CARDS_PER_SERIES (dflt [] (streamingEpisodes m))"
  obtain a1 b1 c1 d1 where e1: "episodes_loop t1 m 0 ?eps (g, seen, {}, []) = (a1, b1, c1, d1)"
    by (cases "episodes_loop t1 m 0 ?eps (g, seen, {}, [])") auto
  obtain a2 b2 c2 d2 where e2: "episodes_loop t2 m 0 ?eps (g, seen, {}, []) = (a2, b2, c2, d2)"
    by (cases "episodes_loop t2 m 0 ?eps (g, seen, {}, [])") auto
  have "ep_ids (episodes_loop t1 m 0 ?eps (g, seen, {}, []))
        = ep_ids (episodes_loop t2 m 0 ?eps (g, seen, {}, []))"
    by (rule episodes_loop_ids) simp
  then have ee: "a2 = a1" "b2 = b1" "c2 = c1" "map card_id d1 = map card_id d2"
    by (simp_all add: e1 e2 ep_ids_def)
  have nil: "d1 = [] \<longleftrightarrow> d2 = []"
    using ee(4) by (metis map_is_Nil_conv)
  show ?case
    unfolding s1 s2 eq
    by (simp add: e1 e2 ee Let_def nil)
      (intro conjI impI Cons.IH;
        simp add: media_ids_def eq ee fallback_card_id_time [of t1 _ _ t2])
qed

lemma generate_cards_ids:
  "map card_id (generate_cards t1 entries) = map card_id (generate_cards t2 entries)"
proof -
  have "media_ids (media_loop t1 entries (0, {}, [])) = media_ids (media_loop t2 entries (0, {}, []))"
    by (rule media_loop_ids) simp
  then show ?thesis
    by (simp add: generate_cards_def media_ids_def split: prod.splits)
qed

lemma importAnilist_idem:
  "length (App_cards (importAnilist f t2 (importAnilist f t1 st u) u))
     = length (App_cards (importAnilist f t1 st u))"
proof (cases "u = []")
  case True
  then show ?thesis by (simp add: importAnilist_def)
next
  case False
  show ?thesis
  proof (cases "f u")
    case (Inl e)
    with False show ?thesis by (simp add: importAnilist_def)
  next
    case (Inr entries)
    have same: "card_id ` set (generate_cards t2 entries) = card_id ` set (generate_cards t1 entries)"
      using generate_cards_ids [of t2 entries t1] by (metis set_map)
    show ?thesis
      using False Inr dedupe_slice_idem [OF same, of DEFAULT_MAX_SHOWS "App_cards st"]
      by (simp add: importAnilist_def Let_def)
  qed
qed

lemma String_nat_1: "String_nat (Suc 0) = ''1''"
  by (simp add: String_nat.simps)

lemma episodes_loop_at:
  "episodes_loop t m idx eps (g, seen, uniq, sc) = (g1, seen1, uniq1, sc1) \<Longrightarrow>
   g1 = g + length eps
   \<and> (\<forall>c \<in> set sc1. c \<in> set sc
         \<or> (\<exists>j < length eps. truthy_str (ep_url (eps ! j))
                \<and> c = episode_card t m (eps ! j) (idx + j + 1) (g + j + 1)))"
proof (induction eps arbitrary: idx g seen uniq sc)
  case Nil
  then show ?case by simp
next
  case (Cons ep eps)
  let ?key = "String_int (media_id m) @ ''::OP'' @ String_nat (idx + 1) @ ''::''
                      @ or_else (ep_url ep) ''none''"
  let ?new = "episode_card t m ep (idx + 1) (g + 1)"
  have shift: "\<And>c. (\<exists>j < length eps. truthy_str (ep_url (eps ! j))
                \<and> c = episode_card t m (eps ! j) (idx + 1 + j + 1) (g + 1 + j + 1))
      \<Longrightarrow> (\<exists>j < length (ep # eps). truthy_str (ep_url ((ep # eps) ! j))
                \<and> c = episode_card t m ((ep # eps) ! j) (idx + j + 1) (g + j + 1))"
  proof -
    fix c
    assume "\<exists>j < length eps. truthy_str (ep_url (eps ! j))
                \<and> c = episode_card t m (eps ! j) (idx + 1 + j + 1) (g + 1 + j + 1)"
    then obtain j where j: "j < length eps" "truthy_str (ep_url (eps ! j))"
        "c = episode_card t m (eps ! j) (idx + 1 + j + 1) (g + 1 + j + 1)"
      by blast
    have "Suc j < length (ep # eps) \<and> truthy_str (ep_url ((ep # eps) ! Suc j))
        \<and> c = episode_card t m ((ep # eps) ! Suc j) (idx + Suc j + 1) (g + Suc j + 1)"
      using j by simp
    then show "\<exists>j < length (ep # eps). truthy_str (ep_url ((ep # eps) ! j))
                \<and> c = episode_card t m ((ep # eps) ! j) (idx + j + 1) (g + j + 1)"
      by blast
  qed
  show ?case
  proof (cases "truthy_str (ep_url ep) \<and> ?key \<notin> seen \<and> idx + 1 \<notin> uniq")
    case True
    then have e: "episodes_loop t m (idx + 1) eps
        (g + 1, insert ?key seen, insert (idx + 1) uniq, sc @ [?new]) = (g1, seen1, uniq1, sc1)"
      using Cons.prems by (simp add: Let_def)
    note ih = Cons.IH [OF e]
    have first: "0 < length (ep # eps) \<and> truthy_str (ep_url ((ep # eps) ! 0))
        \<and> ?new = episode_card t m ((ep # eps) ! 0) (idx + 0 + 1) (g + 0 + 1)"
      using True by simp
    have "\<forall>c \<in> set sc1. c \<in> set sc
         \<or> (\<exists>j < length (ep # eps). truthy_str (ep_url ((ep # eps) ! j))
                \<and> c = episode_card t m ((ep # eps) ! j) (idx + j + 1) (g + j + 1))"
    proof
      fix c
      assume "c \<in> set sc1"
      with ih have "c \<in> set (sc @ [?new])
         \<or> (\<exists>j < length eps. truthy_str (ep_url (eps ! j))
                \<and> c = episode_card t m (eps ! j) (idx + 1 + j + 1) (g + 1 + j + 1))"
        by blast
      then show "c \<in> set sc
         \<or> (\<exists>j < length (ep # eps). truthy_str (ep_url ((ep # eps) ! j))
                \<and> c = episode_card t m ((ep # eps) ! j) (idx + j + 1) (g + j + 1))"
        using shift [of c] first by auto
    qed
    with ih show ?thesis by simp
  next
    case False
    then have e: "episodes_loop t m (idx + 1) eps (g + 1, seen, uniq, sc) = (g1, seen1, uniq1, sc1)"
      using Cons.prems by (auto simp: Let_def)
    note ih = Cons.IH [OF e]
    have "\<forall>c \<in> set sc1. c \<in> set sc
         \<or> (\<exists>j < length (ep # eps). truthy_str (ep_url ((ep # eps) ! j))
                \<and> c = episode_card t m ((ep # eps) ! j) (idx + j + 1) (g + j + 1))"
      using ih shift by blast
    with ih show ?thesis by simp
  qed
qed

lemma series_cards_eps:
  assumes "episodes_loop t m 0 eps (g, seen, {}, []) = (g1, seen1, uniq1, sc1)"
  shows "g1 = g + length eps
    \<and> (\<forall>c \<in> set sc1.
          (\<exists>j \<in> set [0..<length eps]. truthy_str (ep_url (eps ! j))
              \<and> c = episode_card t m (eps ! j) (j + 1) (g + j + 1))
          \<or> c = fallback_card t m (g + length eps + 1))
    \<and> ((\<exists>j \<in> set [0..<length eps]. truthy_str (ep_url (eps ! j))
              \<and> fallback_card t m (g1 + 1) = episode_card t m (eps ! j) (j + 1) (g + j + 1))
          \<or> fallback_card t m (g1 + 1) = fallback_card t m (g + length eps + 1))"
proof -
  have b: "\<And>P. (\<exists>j \<in> set [0..<length eps]. P j) \<longleftrightarrow> (\<exists>j < length eps. P j)"
    by auto
  show ?thesis
    unfolding b using episodes_loop_at [OF assms] by simp
qed

lemma series_cards_at:
  assumes "episodes_loop t m 0 (take MAX_CARDS_PER_SERIES (dflt [] (streamingEpisodes m)))
             (g, seen, {}, []) = (g1, seen1, uniq1, sc1)"
  shows "g1 = g + length (take MAX_CARDS_PER_SERIES (dflt [] (streamingEpisodes m)))"
    and "\<forall>c \<in> set sc1. App_card_at t m g c"
    and "App_card_at t m g (fallback_card t m (g1 + 1))"
  unfolding App_card_at_def Let_def
  using series_cards_eps [OF assms] by blast+

lemma media_loop_at:
  "c \<in> set (snd (snd (media_loop t ms s))) \<Longrightarrow>
   c \<in> set (snd (snd s))
   \<or> (\<exists>pre m post. ms = pre @ m # post \<and> App_card_at t m (fst (media_loop t pre s)) c)"
proof (induction ms arbitrary: s)
  case Nil
  then show ?case by simp
next
  case (Cons m ms)
  obtain g seen nc where s: "s = (g, seen, nc)" by (cases s) auto
  let ?eps = "take MAX_CARDS_PER_SERIES (dflt [] (streamingEpisodes m))"
  obtain g1 seen1 uniq1 sc1 where e: "episodes_loop t m 0 ?eps (g, seen, {}, [])
      = (g1, seen1, uniq1, sc1)"
    by (cases "episodes_loop t m 0 ?eps (g, seen, {}, [])") auto
  note at = series_cards_at [OF e]
  define s' where "s' = (if sc1 \<noteq> [] then (g1, seen1, nc @ sc1)
     else if String_int (media_id m) @ ''::OP1::'' @ String_nat (g1 + 1) \<notin> seen1
          then (g1 + 1, insert (String_int (media_id m) @ ''::OP1::'' @ String_nat (g1 + 1)) seen1,
                nc @ [fallback_card t m (g1 + 1)])
          else (g1 + 1, seen1, nc))"
  have step: "media_loop t (m # ms) s = media_loop t ms s'"
    by (simp add: s e s'_def Let_def)
  have here: "\<forall>c \<in> set (snd (snd s')). c \<in> set nc \<or> App_card_at t m g c"
    using at(2,3) by (auto simp: s'_def)
  have head: "fst (media_loop t [] s) = g" by (simp add: s)
  from Cons.prems have "c \<in> set (snd (snd (media_loop t ms s')))" by (simp only: step)
  from Cons.IH [OF this] show ?case
  proof (elim disjE exE conjE)
    assume "c \<in> set (snd (snd s'))"
    with here have "c \<in> set nc \<or> App_card_at t m g c" by blast
    then show ?thesis
    proof
      assume "c \<in> set nc"
      then show ?thesis by (simp add: s)
    next
      assume "App_card_at t m g c"
      then have "m # ms = [] @ m # ms \<and> App_card_at t m (fst (media_loop t [] s)) c"
        by (simp only: head append_Nil simp_thms)
      then show ?thesis by blast
    qed
  next
    fix pre m' post
    assume ms: "ms = pre @ m' # post"
      and a: "App_card_at t m' (fst (media_loop t pre s')) c"
    have "media_loop t (m # pre) s = media_loop t pre s'"
      by (simp add: s e s'_def Let_def)
    with ms a have "m # ms = (m # pre) @ m' # post
        \<and> App_card_at t m' (fst (media_loop t (m # pre) s)) c"
      by simp
    then show ?thesis by blast
  qed
qed

lemma generate_cards_at:
  "\<forall>c \<in> set (generate_cards t entries).
     \<exists>pre m post. entries = pre @ m # post
        \<and> App_card_at t m (fst (media_loop t pre (0, {}, []))) c"
  using media_loop_at [of _ t entries "(0, {}, [])"]
  by (auto simp: generate_cards_def)

lemma media_loop_append:
  "media_loop t (xs @ ys) s = media_loop t ys (media_loop t xs s)"
proof (induction xs arbitrary: s)
  case Nil
  show ?case by simp
next
  case (Cons m ms)
  obtain g seen nc where s: "s = (g, seen, nc)" by (cases s) auto
  obtain g1 seen1 uniq1 sc1 where e: "episodes_loop t m 0
      (take MAX_CARDS_PER_SERIES (dflt [] (streamingEpisodes m))) (g, seen, {}, [])
      = (g1, seen1, uniq1, sc1)"
    by (cases "episodes_loop t m 0 (take MAX_CARDS_PER_SERIES (dflt [] (streamingEpisodes m)))
         (g, seen, {}, [])") auto
  show ?case by (simp add: s e Let_def Cons.IH)
qed

lemma media_loop_counter:
  "fst (media_loop t (pre @ [m]) s)
     \<in> {fst (media_loop t pre s) + length (take MAX_CARDS_PER_SERIES (dflt [] (streamingEpisodes m))),
        fst (media_loop t pre s) + length (take MAX_CARDS_PER_SERIES (dflt [] (streamingEpisodes m))) + 1}"
proof -
  obtain g seen nc where s: "media_loop t pre s = (g, seen, nc)"
    by (cases "media_loop t pre s") auto
  obtain g1 seen1 uniq1 sc1 where e: "episodes_loop t m 0
      (take MAX_CARDS_PER_SERIES (dflt [] (streamingEpisodes m))) (g, seen, {}, [])
      = (g1, seen1, uniq1, sc1)"
    by (cases "episodes_loop t m 0 (take MAX_CARDS_PER_SERIES (dflt [] (streamingEpisodes m)))
         (g, seen, {}, [])") auto
  note at = series_cards_at(1) [OF e]
  show ?thesis
    unfolding media_loop_append s
    by (simp add: e Let_def at)
qed

lemma episode_card_id:
  "card_id (episode_card t m ep k g)
     = String_int (media_id m) @ ''::OP'' @ String_nat k @ ''::'' @ String_nat g
   \<and> app_opNumber (episode_card t m ep k g) = k"
  by (simp add: episode_card_def)

lemma fallback_card_id:
  "card_id (fallback_card t m g) = String_int (media_id m) @ ''::OP1::'' @ String_nat g
   \<and> app_opNumber (fallback_card t m g) = 1"
  by (simp add: fallback_card_def)

section \<open>Card ids and repeated imports\<close>

lemma new_card_id_text:
  "card_id (new_card m op)
     = String_int (anilistId m) @ ''::OP'' @ String_int (number_or_1 (number op))"
  by (simp add: new_card_def entry_card_id_def)

lemma stage_ops_new:
  "\<forall>c \<in> set (fst (snd (stage_ops m ops (ids, [], 0)))). \<exists>op \<in> set ops. c = new_card m op"
  using stage_ops_form [of m ops ids "[]" 0] by simp

text \<open>
  C2 (as amended).  In \<^verbatim>\<open>buildDeckFromAniList\<close> the id of every staged card is the id
  of the entry, \<^verbatim>\<open>::OP\<close>, and the number of the opening (1 when the number is missing
  or 0), and nothing else.  When a run that is not cancelled is followed by a second run
  in which the user lookup, the list fetch and the theme index answer as they did in the
  first run (the second run may draw other random delays and may be cancelled), the card
  collection after the second run is the one after the first, so its size is unchanged.

  In \<^verbatim>\<open>importAnilist\<close> of \<^verbatim>\<open>src/App.jsx\<close> every generated card belongs to an entry
  \<open>md\<close> of the list, and with \<open>G\<close> the value of \<^verbatim>\<open>globalIndex\<close> after the entries
  before \<open>md\<close> it is either the card of the episode at a position \<open>j\<close> among the first
  five episodes of \<open>md\<close>, whose id is the id of \<open>md\<close>, \<^verbatim>\<open>::OP\<close>, \<open>j + 1\<close>, \<^verbatim>\<open>::\<close>,
  \<open>G + j + 1\<close>, or the fallback card of \<open>md\<close>, whose id is the id of \<open>md\<close>,
  \<^verbatim>\<open>::OP1::\<close>, \<open>G + n + 1\<close>, for the \<open>n\<close> episodes visited.  Over an entry
  \<^verbatim>\<open>globalIndex\<close> advances by \<open>n\<close> or by \<open>n + 1\<close>.  So the id depends on the place
  of the entry in the run as well.  A second import for which the list service gives the
  same answer leaves the size of the card collection in memory unchanged.
\<close>

theorem C2_card_ids:
  "card_id (new_card m op)
     = String_int (anilistId m) @ ''::OP'' @ String_int (number_or_1 (number op))
   \<and> (\<forall>c \<in> set (fst (snd (stage_ops m ops (ids, [], 0)))). \<exists>op \<in> set ops. c = new_card m op)
   \<and> ((\<forall>i. \<not> cancelled w i) \<and> server w2 = server w
        \<and> userId_result w2 = userId_result w \<and> anime_result w2 = anime_result w \<longrightarrow>
        cards (buildDeckFromAniList w2 maxShows (buildDeckFromAniList w maxShows st name) name)
          = cards (buildDeckFromAniList w maxShows st name))
   \<and> (\<forall>c \<in> set (generate_cards t entries).
         \<exists>pre md post. entries = pre @ md # post
            \<and> App_card_at t md (fst (media_loop t pre (0, {}, []))) c)
   \<and> (card_id (episode_card t md ep k g)
          = String_int (media_id md) @ ''::OP'' @ String_nat k @ ''::'' @ String_nat g
        \<and> app_opNumber (episode_card t md ep k g) = k)
   \<and> (card_id (fallback_card t md g) = String_int (media_id md) @ ''::OP1::'' @ String_nat g
        \<and> app_opNumber (fallback_card t md g) = 1)
   \<and> fst (media_loop t (mds @ [md]) (0, {}, []))
        \<in> {fst (media_loop t mds (0, {}, []))
             + length (take MAX_CARDS_PER_SERIES (dflt [] (streamingEpisodes md))),
           fst (media_loop t mds (0, {}, []))
             + length (take MAX_CARDS_PER_SERIES (dflt [] (streamingEpisodes md))) + 1}
   \<and> length (App_cards (importAnilist f t2 (importAnilist f t1 ast u) u))
       = length (App_cards (importAnilist f t1 ast u))"
proof -
  have a: "(\<forall>i. \<not> cancelled w i) \<and> server w2 = server w
        \<and> userId_result w2 = userId_result w \<and> anime_result w2 = anime_result w \<longrightarrow>
        cards (buildDeckFromAniList w2 maxShows (buildDeckFromAniList w maxShows st name) name)
          = cards (buildDeckFromAniList w maxShows st name)"
    using build_idem [of w w2 maxShows st name] by blast
  show ?thesis
    using new_card_id_text [of m op] stage_ops_new [of m ops ids] a
      generate_cards_at [of t entries] episode_card_id [of t md ep k g]
      fallback_card_id [of t md g] media_loop_counter [of t mds md "(0, {}, [])"]
      importAnilist_idem [of f t2 t1 ast u]
    by blast
qed

lemma demo_stage:
  "stage_ops titan_show [demo_op1] ({}, [], 0) = ({''16498::OP1''}, [titan_card], 1)"
  by (simp add: demo_titan_id demo_titan_card)

lemma demo_run_from:
  assumes "cards st = []" and "cache_state st = Map.empty"
  shows "buildDeckFromAniList demo_world 250 st ''alice''
       = st\<lparr>cards := [titan_card], idsRef := {''16498::OP1''},
          progress := \<lparr>totalShows = 2, processedShows = 2, totalOps = 1\<rparr>,
          error_text := [], loading := False, showAnswer := False,
          cache_state := [''16498'' \<mapsto> [demo_op1]]\<rparr>"
proof -
  have t: "take (nat (max 10 250)) [bad_show, titan_show] = [bad_show, titan_show]"
    by simp
  have a: "anime_result demo_world 1 = Inr [bad_show, titan_show]"
    by (simp add: demo_world_def)
  have nc: "\<And>i. \<not> cancelled demo_world i" by (simp add: demo_world_def)
  let ?s1 = "list_state (start_state st) [bad_show, titan_show]"
  have s2: "process_entry Map.empty demo_world ?s1 bad_show
      = st\<lparr>cards := [], idsRef := {},
           progress := \<lparr>totalShows = 2, processedShows = Suc 0, totalOps = 0\<rparr>,
           error_text := [], loading := True, showAnswer := False, cache_state := Map.empty\<rparr>"
    using assms
    by (simp add: process_entry_fail [OF demo_bad_show] list_state_def start_state_def)
  have s3: "process_entry Map.empty demo_world
      (st\<lparr>cards := [], idsRef := {},
           progress := \<lparr>totalShows = 2, processedShows = Suc 0, totalOps = 0\<rparr>,
           error_text := [], loading := True, showAnswer := False, cache_state := Map.empty\<rparr>)
      titan_show
     = st\<lparr>cards := [titan_card], idsRef := {''16498::OP1''},
          progress := \<lparr>totalShows = 2, processedShows = 2, totalOps = 1\<rparr>,
          error_text := [], loading := True, showAnswer := False,
          cache_state := [''16498'' \<mapsto> [demo_op1]]\<rparr>"
    by (simp add: process_entry_def demo_titan_show demo_titan_id demo_titan_card dedupe_single
        bump_processed_def Let_def)
  have ne: "[bad_show, titan_show] \<noteq> []" by simp
  show ?thesis
    unfolding build_state [OF demo_lookup a t ne, of st] assms(2)
    by (simp add: nc s2 s3 dedupe_single)
qed

lemma down_fails: "\<exists>e. fst (resolve_entry Map.empty down_world bad_show) = Inl e"
  "\<exists>e. fst (resolve_entry Map.empty down_world titan_show) = Inl e"
  by (simp_all add: resolve_entry_def resolver_refines resolve_spec_def variants_def
      titles_of_def bad_show_def titan_show_def fetchByUrl_def fetchJSON_closed final_result_def
      net_of_def down_world_def unavailable_def ok_def split: prod.splits)

lemma down_run:
  "buildDeckFromAniList down_world 250 fresh_state ''alice''
     = fresh_state\<lparr>progress := \<lparr>totalShows = 2, processedShows = 2, totalOps = 0\<rparr>,
                   error_text := no_op_msg\<rparr>"
proof -
  have t: "take (nat (max 10 250)) [bad_show, titan_show] = [bad_show, titan_show]"
    by simp
  have u: "userId_result down_world (trim ''alice'') = Inr 1"
    using demo_lookup by (simp add: down_world_def)
  have a: "anime_result down_world 1 = Inr [bad_show, titan_show]"
    by (simp add: down_world_def demo_world_def)
  have nc: "\<And>i. \<not> cancelled down_world i" by (simp add: down_world_def demo_world_def)
  obtain e1 e2 where f: "fst (resolve_entry Map.empty down_world bad_show) = Inl e1"
      "fst (resolve_entry Map.empty down_world titan_show) = Inl e2"
    using down_fails by blast
  have ne: "[bad_show, titan_show] \<noteq> []" by simp
  have c: "cache_state fresh_state = Map.empty" by (simp add: fresh_state_def)
  show ?thesis
    unfolding build_state [OF u a t ne, of fresh_state] c
    by (simp add: nc process_entry_fail [OF f(1)] process_entry_fail [OF f(2)]
        list_state_def start_state_def fresh_state_def dedupeById_def)
qed

lemma demo_after_down:
  "cards (buildDeckFromAniList demo_world 250
            (buildDeckFromAniList down_world 250 fresh_state ''alice'') ''alice'') = [titan_card]"
  unfolding down_run
  by (subst demo_run_from) (simp_all add: fresh_state_def)

lemma demo_first_run:
  "cards (buildDeckFromAniList demo_world 250 fresh_state ''alice'') = [titan_card]"
  by (subst demo_run_from) (simp_all add: fresh_state_def)

lemma demo_generate:
  "map card_id (generate_cards 0 [media3, media7]) = [''3::OP1::1'', ''7::OP1::2'']
   \<and> map app_opNumber (generate_cards 0 [media3, media7]) = [1, 1]"
  by (simp add: generate_cards_def media3_def media7_def MAX_CARDS_PER_SERIES_def dflt_def Let_def
     truthy_str_def or_else_def String_int_def String_nat.simps episode_card_def
     fallback_card_def)

lemma demo_generate7:
  "map card_id (generate_cards 0 [media7]) = [''7::OP1::1'']"
  by (simp add: generate_cards_def media7_def MAX_CARDS_PER_SERIES_def dflt_def Let_def
     truthy_str_def or_else_def String_int_def String_nat.simps episode_card_def)

lemma last_card_id: "xs \<noteq> [] \<Longrightarrow> card_id (last xs) = last (map card_id xs)"
  by (simp add: last_map)

lemma last_opNumber: "xs \<noteq> [] \<Longrightarrow> app_opNumber (last xs) = last (map app_opNumber xs)"
  by (simp add: last_map)

lemma demo_generate_ne: "generate_cards 0 [media3, media7] \<noteq> []" "generate_cards 0 [media7] \<noteq> []"
  using demo_generate demo_generate7 by auto

lemma demo_last:
  "card_id (last (generate_cards 0 [media3, media7])) = ''7::OP1::2''"
  "app_opNumber (last (generate_cards 0 [media3, media7])) = 1"
  "card_id (last (generate_cards 0 [media7])) = ''7::OP1::1''"
  by (simp_all add: last_card_id last_opNumber demo_generate_ne demo_generate demo_generate7)

lemma demo_counter:
  "fst (media_loop 0 [media3] (0, {}, [])) = 1"
  "fst (media_loop 0 ([media3] @ [media7]) (0, {}, [])) = 2"
  by (simp_all add: media3_def media7_def MAX_CARDS_PER_SERIES_def dflt_def Let_def
     truthy_str_def or_else_def String_int_def String_nat.simps)

text \<open>
  Witness of C2: the example list imported twice by \<^verbatim>\<open>buildDeckFromAniList\<close>, the
  second run drawing other random numbers and being cancelled late; and the two example
  series imported twice by \<^verbatim>\<open>importAnilist\<close>.
\<close>

theorem C2_card_ids_witness:
  "(\<forall>i. \<not> cancelled demo_world i)
   \<and> cards (buildDeckFromAniList demo_world 250 fresh_state ''alice'') = [titan_card]
   \<and> cards (buildDeckFromAniList (demo_world\<lparr>random := (\<lambda>_. 1 / 2), cancelled := (\<lambda>i. 3 < i)\<rparr>)
               250 (buildDeckFromAniList demo_world 250 fresh_state ''alice'') ''alice'')
       = [titan_card]
   \<and> card_id (new_card titan_show demo_op1) = ''16498::OP1''
   \<and> (\<exists>op \<in> set [demo_op1]. titan_card = new_card titan_show op)
   \<and> card_id (last (generate_cards 0 [media3, media7])) = ''7::OP1::2''
   \<and> (\<exists>pre md post. [media3, media7] = pre @ md # post
         \<and> App_card_at 0 md (fst (media_loop 0 pre (0, {}, [])))
               (last (generate_cards 0 [media3, media7])))
   \<and> fst (media_loop 0 ([media3] @ [media7]) (0, {}, [])) \<in> {1 + 1, 1 + 1 + 1}
   \<and> length (App_cards (importAnilist (\<lambda>_. Inr [media3, media7]) 9
               (importAnilist (\<lambda>_. Inr [media3, media7]) 0 empty_App ''alice'') ''alice''))
       = length (App_cards (importAnilist (\<lambda>_. Inr [media3, media7]) 0 empty_App ''alice''))"
proof -
  let ?w2 = "demo_world\<lparr>random := (\<lambda>_. 1 / 2), cancelled := (\<lambda>i. 3 < i)\<rparr>"
  have nc: "\<forall>i. \<not> cancelled demo_world i" by (simp add: demo_world_def)
  have same: "server ?w2 = server demo_world \<and> userId_result ?w2 = userId_result demo_world
      \<and> anime_result ?w2 = anime_result demo_world"
    by simp
  note m = C2_card_ids [where m = titan_show and op = demo_op1 and ops = "[demo_op1]"
      and ids = "{}" and w = demo_world and ?w2.0 = ?w2 and maxShows = 250
      and st = fresh_state and name = "''alice''" and t = 0 and entries = "[media3, media7]"
      and md = media7 and mds = "[media3]"
      and f = "\<lambda>_. Inr [media3, media7]" and ?t2.0 = 9 and ?t1.0 = 0 and ast = empty_App
      and u = "''alice''"]
  from m nc same have second: "cards (buildDeckFromAniList ?w2 250
               (buildDeckFromAniList demo_world 250 fresh_state ''alice'') ''alice'')
       = cards (buildDeckFromAniList demo_world 250 fresh_state ''alice'')"
    by blast
  from m have idc: "card_id (new_card titan_show demo_op1)
     = String_int (anilistId titan_show) @ ''::OP'' @ String_int (number_or_1 (number demo_op1))"
    by blast
  have idv: "String_int (anilistId titan_show) @ ''::OP''
      @ String_int (number_or_1 (number demo_op1)) = ''16498::OP1''"
    by (simp add: titan_show_def demo_op1_def number_or_1_def String_int_def String_nat.simps)
  from m have "\<forall>c \<in> set (fst (snd (stage_ops titan_show [demo_op1] ({}, [], 0)))).
      \<exists>op \<in> set [demo_op1]. c = new_card titan_show op"
    by blast
  then have staged: "\<exists>op \<in> set [demo_op1]. titan_card = new_card titan_show op"
    by (simp add: demo_titan_id demo_titan_card)
  from m have form: "\<forall>c \<in> set (generate_cards 0 [media3, media7]).
      \<exists>pre md post. [media3, media7] = pre @ md # post
         \<and> App_card_at 0 md (fst (media_loop 0 pre (0, {}, []))) c"
    by blast
  have "last (generate_cards 0 [media3, media7]) \<in> set (generate_cards 0 [media3, media7])"
    using demo_generate_ne(1) by (rule last_in_set)
  with form have at: "\<exists>pre md post. [media3, media7] = pre @ md # post
         \<and> App_card_at 0 md (fst (media_loop 0 pre (0, {}, [])))
               (last (generate_cards 0 [media3, media7]))"
    by blast
  from m have "fst (media_loop 0 ([media3] @ [media7]) (0, {}, []))
        \<in> {fst (media_loop 0 [media3] (0, {}, []))
             + length (take MAX_CARDS_PER_SERIES (dflt [] (streamingEpisodes media7))),
           fst (media_loop 0 [media3] (0, {}, []))
             + length (take MAX_CARDS_PER_SERIES (dflt [] (streamingEpisodes media7))) + 1}"
    by blast
  moreover have "length (take MAX_CARDS_PER_SERIES (dflt [] (streamingEpisodes media7))) = 1"
    by (simp add: media7_def MAX_CARDS_PER_SERIES_def dflt_def)
  ultimately have cnt: "fst (media_loop 0 ([media3] @ [media7]) (0, {}, [])) \<in> {1 + 1, 1 + 1 + 1}"
    by (simp only: demo_counter(1))
  from m have len: "length (App_cards (importAnilist (\<lambda>_. Inr [media3, media7]) 9
               (importAnilist (\<lambda>_. Inr [media3, media7]) 0 empty_App ''alice'') ''alice''))
       = length (App_cards (importAnilist (\<lambda>_. Inr [media3, media7]) 0 empty_App ''alice''))"
    by blast
  have first: "cards (buildDeckFromAniList demo_world 250 fresh_state ''alice'') = [titan_card]"
    by (rule demo_first_run)
  have second': "cards (buildDeckFromAniList ?w2 250
               (buildDeckFromAniList demo_world 250 fresh_state ''alice'') ''alice'')
       = [titan_card]"
    using second first by simp
  have idc': "card_id (new_card titan_show demo_op1) = ''16498::OP1''"
    using idc idv by simp
  show ?thesis
    using nc first second' idc' staged demo_last(1) at cnt len by blast
qed

text \<open>
  Counterexamples to C2 as stated.  In \<^verbatim>\<open>importAnilist\<close> the card of the series 7 has
  the id \<^verbatim>\<open>7::OP1::2\<close> when the series comes second in the list, which is not
  \<^verbatim>\<open>7::OP1\<close>, and which is not the id \<^verbatim>\<open>7::OP1::1\<close> the same series and opening get
  when the series is alone in the list.  And in \<^verbatim>\<open>buildDeckFromAniList\<close>, for the same
  user and the same list, neither run being cancelled: when the theme index answers 503
  to every request of the first run and answers the second run, the card collection is
  empty after the first run and holds a card after the second.
\<close>

theorem C2_counterexample:
  "card_id (last (generate_cards 0 [media3, media7]))
     \<noteq> String_int (media_id media7) @ ''::OP''
         @ String_nat (app_opNumber (last (generate_cards 0 [media3, media7])))
   \<and> card_id (last (generate_cards 0 [media3, media7]))
     \<noteq> card_id (last (generate_cards 0 [media7]))
   \<and> userId_result demo_world = userId_result down_world
   \<and> anime_result demo_world = anime_result down_world
   \<and> (\<forall>i. \<not> cancelled down_world i \<and> \<not> cancelled demo_world i)
   \<and> length (cards (buildDeckFromAniList demo_world 250
                      (buildDeckFromAniList down_world 250 fresh_state ''alice'') ''alice''))
       \<noteq> length (cards (buildDeckFromAniList down_world 250 fresh_state ''alice''))"
proof -
  have a: "String_int (media_id media7) @ ''::OP'' @ String_nat 1 = ''7::OP1''"
    by (simp add: media7_def String_int_def String_nat.simps)
  have b: "card_id (last (generate_cards 0 [media3, media7]))
     \<noteq> String_int (media_id media7) @ ''::OP''
         @ String_nat (app_opNumber (last (generate_cards 0 [media3, media7])))
   \<and> card_id (last (generate_cards 0 [media3, media7]))
     \<noteq> card_id (last (generate_cards 0 [media7]))"
    unfolding demo_last a by simp
  have c: "userId_result demo_world = userId_result down_world
     \<and> anime_result demo_world = anime_result down_world
     \<and> (\<forall>i. \<not> cancelled down_world i \<and> \<not> cancelled demo_world i)"
    by (simp add: down_world_def demo_world_def)
  have e: "cards (buildDeckFromAniList down_world 250 fresh_state ''alice'') = []"
    unfolding down_run by (simp add: fresh_state_def)
  have d: "length (cards (buildDeckFromAniList demo_world 250
                      (buildDeckFromAniList down_world 250 fresh_state ''alice'') ''alice''))
       \<noteq> length (cards (buildDeckFromAniList down_world 250 fresh_state ''alice''))"
    unfolding demo_after_down e by simp
  show ?thesis using b c d by blast
qed

end
